theory Spec2Isabelle
  imports Complex_Main
begin

section \<open>JavaScript numbers\<close>

text \<open>
  A TypeScript \<open>number\<close> is an IEEE 754 binary64 value. A finite value is modelled by
  the real number it denotes, and the two infinities and NaN are values of their own.
  Every arithmetic operation rounds its exact result to the nearest value with a
  significand of 53 bits, a tie going to the even significand, and yields an infinity
  when the rounded result reaches \<open>2^1024\<close>. Two features of binary64 are not
  represented: the sign of zero (a zero divisor counts as \<open>+0\<close>), and gradual underflow
  (the exponent is unbounded below, so a result under \<open>2^-1022\<close> keeps its 53 bits
  instead of losing precision or becoming zero).
\<close>

definition pow2 :: "int \<Rightarrow> real" where
  "pow2 k = 2 powr real_of_int k"

text \<open>The binary exponent of a real other than zero: \<open>2^e \<le> |x| < 2^(e+1)\<close>.\<close>

definition expo :: "real \<Rightarrow> int" where
  "expo x = \<lfloor>log 2 \<bar>x\<bar>\<rfloor>"

text \<open>Rounding to the nearest integer, a tie to the even one.\<close>

definition round_even :: "real \<Rightarrow> int" where
  "round_even q =
     (let f = \<lfloor>q\<rfloor>; d = q - of_int f
      in if d < 1 / 2 then f else if 1 / 2 < d then f + 1 else if even f then f else f + 1)"

text \<open>Rounding to 53 significant bits: the spacing of the values around \<open>x\<close> is
  \<open>2^(e - 52)\<close>.\<close>

definition rnd :: "real \<Rightarrow> real" where
  "rnd x = (if x = 0 then 0
            else of_int (round_even (x / pow2 (expo x - 52))) * pow2 (expo x - 52))"

datatype number = NaN | NegInf | Fin real | PosInf

definition round64 :: "real \<Rightarrow> number" where
  "round64 x = (if 2 ^ 1024 \<le> \<bar>rnd x\<bar> then (if 0 < x then PosInf else NegInf)
                else Fin (rnd x))"

text \<open>A numeric literal of the source denotes the binary64 value nearest to it.\<close>

definition lit :: "real \<Rightarrow> number" where
  "lit c = round64 c"

instantiation number :: "{plus, minus, uminus, times, inverse, ord}"
begin

fun uminus_number :: "number \<Rightarrow> number" where
  "uminus_number NaN = NaN"
| "uminus_number NegInf = PosInf"
| "uminus_number (Fin a) = Fin (- a)"
| "uminus_number PosInf = NegInf"

fun plus_number :: "number \<Rightarrow> number \<Rightarrow> number" where
  "plus_number (Fin a) (Fin b) = round64 (a + b)"
| "plus_number NaN _ = NaN"
| "plus_number _ NaN = NaN"
| "plus_number PosInf NegInf = NaN"
| "plus_number NegInf PosInf = NaN"
| "plus_number PosInf _ = PosInf"
| "plus_number NegInf _ = NegInf"
| "plus_number _ b = b"

definition minus_number :: "number \<Rightarrow> number \<Rightarrow> number" where
  "minus_number a b = a + (- b)"

fun times_number :: "number \<Rightarrow> number \<Rightarrow> number" where
  "times_number (Fin a) (Fin b) = round64 (a * b)"
| "times_number NaN _ = NaN"
| "times_number _ NaN = NaN"
| "times_number PosInf (Fin b) = (if b = 0 then NaN else if 0 < b then PosInf else NegInf)"
| "times_number NegInf (Fin b) = (if b = 0 then NaN else if 0 < b then NegInf else PosInf)"
| "times_number (Fin a) PosInf = (if a = 0 then NaN else if 0 < a then PosInf else NegInf)"
| "times_number (Fin a) NegInf = (if a = 0 then NaN else if 0 < a then NegInf else PosInf)"
| "times_number PosInf PosInf = PosInf"
| "times_number PosInf NegInf = NegInf"
| "times_number NegInf PosInf = NegInf"
| "times_number NegInf NegInf = PosInf"

fun divide_number :: "number \<Rightarrow> number \<Rightarrow> number" where
  "divide_number (Fin a) (Fin b) =
     (if b = 0 then (if a = 0 then NaN else if 0 < a then PosInf else NegInf)
      else round64 (a / b))"
| "divide_number NaN _ = NaN"
| "divide_number _ NaN = NaN"
| "divide_number (Fin a) _ = Fin 0"
| "divide_number PosInf (Fin b) = (if 0 \<le> b then PosInf else NegInf)"
| "divide_number NegInf (Fin b) = (if 0 \<le> b then NegInf else PosInf)"
| "divide_number _ _ = NaN"

definition inverse_number :: "number \<Rightarrow> number" where
  "inverse_number a = divide (Fin 1) a"

text \<open>Every comparison with NaN is false.\<close>

fun less_eq_number :: "number \<Rightarrow> number \<Rightarrow> bool" where
  "less_eq_number (Fin a) (Fin b) = (a \<le> b)"
| "less_eq_number NaN _ = False"
| "less_eq_number _ NaN = False"
| "less_eq_number NegInf _ = True"
| "less_eq_number _ PosInf = True"
| "less_eq_number _ _ = False"

fun less_number :: "number \<Rightarrow> number \<Rightarrow> bool" where
  "less_number (Fin a) (Fin b) = (a < b)"
| "less_number NaN _ = False"
| "less_number _ NaN = False"
| "less_number PosInf _ = False"
| "less_number _ NegInf = False"
| "less_number _ _ = True"

instance ..

end

definition trunc :: "real \<Rightarrow> int" where
  "trunc q = (if 0 \<le> q then \<lfloor>q\<rfloor> else \<lceil>q\<rceil>)"

text \<open>The remainder operator \<open>%\<close>: the result has the sign of the dividend.\<close>

fun js_rem :: "number \<Rightarrow> number \<Rightarrow> number" where
  "js_rem (Fin a) (Fin b) = (if b = 0 then NaN else Fin (a - b * of_int (trunc (a / b))))"
| "js_rem NaN _ = NaN"
| "js_rem _ NaN = NaN"
| "js_rem (Fin a) _ = Fin a"
| "js_rem _ _ = NaN"

fun Math_max :: "number \<Rightarrow> number \<Rightarrow> number" where
  "Math_max NaN _ = NaN"
| "Math_max _ NaN = NaN"
| "Math_max a b = (if a \<le> b then b else a)"

fun Math_min :: "number \<Rightarrow> number \<Rightarrow> number" where
  "Math_min NaN _ = NaN"
| "Math_min _ NaN = NaN"
| "Math_min a b = (if a \<le> b then a else b)"

fun Math_abs :: "number \<Rightarrow> number" where
  "Math_abs NaN = NaN"
| "Math_abs (Fin a) = Fin \<bar>a\<bar>"
| "Math_abs _ = PosInf"

fun Math_hypot :: "number \<Rightarrow> number \<Rightarrow> number" where
  "Math_hypot (Fin a) (Fin b) = round64 (sqrt (a\<^sup>2 + b\<^sup>2))"
| "Math_hypot PosInf _ = PosInf"
| "Math_hypot NegInf _ = PosInf"
| "Math_hypot _ PosInf = PosInf"
| "Math_hypot _ NegInf = PosInf"
| "Math_hypot _ _ = NaN"

fun Math_cos :: "number \<Rightarrow> number" where
  "Math_cos (Fin a) = round64 (cos a)"
| "Math_cos _ = NaN"

fun Math_sin :: "number \<Rightarrow> number" where
  "Math_sin (Fin a) = round64 (sin a)"
| "Math_sin _ = NaN"

fun Math_exp :: "number \<Rightarrow> number" where
  "Math_exp (Fin a) = round64 (exp a)"
| "Math_exp NegInf = Fin 0"
| "Math_exp a = a"

fun Math_floor :: "number \<Rightarrow> number" where
  "Math_floor (Fin a) = Fin (of_int \<lfloor>a\<rfloor>)"
| "Math_floor a = a"

text \<open>\<open>Math.round\<close> rounds to the nearest integer, a tie towards \<open>+\<infinity>\<close>.\<close>

fun Math_round :: "number \<Rightarrow> number" where
  "Math_round (Fin a) = Fin (of_int \<lfloor>a + 1 / 2\<rfloor>)"
| "Math_round a = a"

text \<open>A number is falsy when it is zero or NaN; \<open>a || b\<close> is \<open>a\<close> unless \<open>a\<close> is falsy.\<close>

definition js_or :: "number \<Rightarrow> number \<Rightarrow> number" where
  "js_or a b = (if a = NaN \<or> a = Fin 0 then b else a)"

section \<open>physics.ts\<close>

definition clamp :: "number \<Rightarrow> number \<Rightarrow> number \<Rightarrow> number" where
  "clamp v lo hi = Math_max lo (Math_min hi v)"

definition lerp :: "number \<Rightarrow> number \<Rightarrow> number \<Rightarrow> number" where
  "lerp a b t = a + (b - a) * t"

definition sign :: "number \<Rightarrow> number" where
  "sign v = (if v < Fin 0 then Fin (- 1) else Fin 1)"

definition foldYReflect :: "number \<Rightarrow> number \<Rightarrow> number \<Rightarrow> number" where
  "foldYReflect y minY maxY =
     (let span = maxY - minY in
      if span \<le> Fin 0 then minY
      else
        let v = y - minY;
            period = Fin 2 * span;
            v = js_rem (js_rem v period + period) period;
            v = (if v > span then period - v else v)
        in v + minY)"

record Paddle =
  x :: number
  y :: number
  vy :: number
  w :: number
  h :: number

record Ball =
  x :: number
  y :: number
  vx :: number
  vy :: number
  r :: number

record HitResult =
  hit :: bool
  vx :: number
  vy :: number
  x :: number

record Opts =
  paddle :: Paddle
  ball :: Ball
  isLeft :: bool
  speedUp :: number
  maxSpeed :: number
  dpr :: number

definition resolvePaddleHit :: "Opts \<Rightarrow> HitResult" where
  "resolvePaddleHit opts =
     (let p = paddle opts; b = ball opts;
          px0 = Paddle.x p;
          px1 = Paddle.x p + Paddle.w p;
          py0 = Paddle.y p;
          py1 = Paddle.y p + Paddle.h p;
          bx0 = Ball.x b - Ball.r b;
          bx1 = Ball.x b + Ball.r b;
          by0 = Ball.y b - Ball.r b;
          by1 = Ball.y b + Ball.r b
      in
      if bx1 < px0 \<or> bx0 > px1 \<or> by1 < py0 \<or> by0 > py1
      then \<lparr>hit = False, vx = Ball.vx b, vy = Ball.vy b, x = Ball.x b\<rparr>
      else
        let x = (if isLeft opts then px1 + Ball.r b else px0 - Ball.r b);
            speed = Math_hypot (Ball.vx b) (Ball.vy b);
            newSpeed = Math_min (speed * speedUp opts) (maxSpeed opts * dpr opts);
            impact = (Ball.y b - (Paddle.y p + Paddle.h p * lit 0.5)) / (Paddle.h p * lit 0.5);
            spin = clamp ((Paddle.vy p / (Fin 1150 * dpr opts)) * lit 0.55) (- lit 0.55) (lit 0.55);
            ang = clamp (impact * lit 0.75 + spin) (- lit 0.95) (lit 0.95);
            dir = (if isLeft opts then Fin 1 else Fin (- 1));
            vx = Math_cos ang * newSpeed * dir;
            vy = Math_sin ang * newSpeed
        in \<lparr>hit = True, vx = vx, vy = vy, x = x\<rparr>)"

section \<open>main.ts: the game state and the ball step\<close>

text \<open>
  The module-level objects \<open>state\<close>, \<open>world\<close>, \<open>left\<close>, \<open>right\<close>, \<open>ball\<close> and the
  canvas size are the fields of one record that every function takes and returns. What
  the functions read from the browser is an argument: the device pixel ratio and the
  size of the canvas's bounding rectangle. The canvas keeps the width and height assigned
  to it as they are. Writes to the page (texts, the overlay) and sounds are left out:
  nothing in the simulation reads them back.
\<close>

datatype Mode = Attract | Serve | Play | Pause | Over

datatype ScoreSide = L | R

record DifficultyConfig =
  label :: string
  aiMaxSpeed :: number
  aiReactionMs :: number
  aiErrorPx :: number
  ballSpeed :: number
  speedUp :: number

definition Difficulty_Easy :: DifficultyConfig where
  "Difficulty_Easy = \<lparr>label = ''Easy'', aiMaxSpeed = Fin 720, aiReactionMs = Fin 190,
     aiErrorPx = Fin 26, ballSpeed = Fin 820, speedUp = lit 1.035\<rparr>"

definition Difficulty_Normal :: DifficultyConfig where
  "Difficulty_Normal = \<lparr>label = ''Normal'', aiMaxSpeed = Fin 980, aiReactionMs = Fin 130,
     aiErrorPx = Fin 16, ballSpeed = Fin 900, speedUp = lit 1.045\<rparr>"

definition Difficulty_Hard :: DifficultyConfig where
  "Difficulty_Hard = \<lparr>label = ''Hard'', aiMaxSpeed = Fin 1250, aiReactionMs = Fin 90,
     aiErrorPx = Fin 8, ballSpeed = Fin 980, speedUp = lit 1.055\<rparr>"

definition DiffOrder :: "DifficultyConfig list" where
  "DiffOrder = [Difficulty_Easy, Difficulty_Normal, Difficulty_Hard]"

record State =
  mode :: Mode
  diff :: DifficultyConfig
  sound :: bool
  scoreL :: number
  scoreR :: number
  maxScore :: number
  lastT :: number
  t :: number

record World =
  w :: number
  h :: number
  padW :: number
  padH :: number
  padInset :: number
  ballR :: number
  netW :: number
  netGap :: number

record LeftPaddle =
  x :: number
  y :: number
  vy :: number
  targetY :: "number option"

record RightPaddle = LeftPaddle +
  lastReactAt :: number

record GameBall =
  x :: number
  y :: number
  vx :: number
  vy :: number
  glow :: number

record Canvas =
  width :: number
  height :: number

record Game =
  state :: State
  world :: World
  left :: LeftPaddle
  right :: RightPaddle
  ball :: GameBall
  canvas :: Canvas

record Env =
  devicePixelRatio :: number
  rectWidth :: number
  rectHeight :: number

definition DPR :: "Env \<Rightarrow> number" where
  "DPR env = Math_max (Fin 1) (Math_min (lit 2.5) (js_or (devicePixelRatio env) (Fin 1)))"

text \<open>\<open>a !== b\<close> on numbers: NaN differs from everything, itself included.\<close>

definition strict_neq :: "number \<Rightarrow> number \<Rightarrow> bool" where
  "strict_neq a b = (a = NaN \<or> b = NaN \<or> a \<noteq> b)"

definition fitCanvas :: "Env \<Rightarrow> Game \<Rightarrow> Game" where
  "fitCanvas env g =
     (let dpr = DPR env;
          w = Math_max (Fin 320) (Math_floor (rectWidth env * dpr));
          h = Math_max (Fin 240) (Math_floor (rectHeight env * dpr))
      in if strict_neq (width (canvas g)) w \<or> strict_neq (height (canvas g)) h
         then g\<lparr>canvas := \<lparr>width = w, height = h\<rparr>\<rparr>
         else g)"

definition setMode :: "Mode \<Rightarrow> Game \<Rightarrow> Game" where
  "setMode m g = g\<lparr>state := (state g)\<lparr>mode := m\<rparr>\<rparr>"

definition resetRound :: "Mode \<Rightarrow> Env \<Rightarrow> Game \<Rightarrow> Game" where
  "resetRound m env g0 =
     (let g = fitCanvas env g0;
          ww = width (canvas g);
          wh = height (canvas g);
          wd = (world g)\<lparr>
            World.w := ww,
            World.h := wh,
            padW := Math_max (Fin 12) (Math_round (ww * lit 0.016)),
            padH := Math_max (Fin 70) (Math_round (wh * lit 0.20)),
            padInset := Math_max (Fin 20) (Math_round (ww * lit 0.04)),
            ballR := Math_max (Fin 7) (Math_round (ww * lit 0.010)),
            netW := Math_max (Fin 3) (Math_round (ww * lit 0.006)),
            netGap := Math_max (Fin 12) (Math_round (wh * lit 0.03))\<rparr>;
          py = (World.h wd - padH wd) * lit 0.5;
          lp = (left g)\<lparr>LeftPaddle.x := padInset wd, LeftPaddle.y := py,
                         LeftPaddle.vy := Fin 0\<rparr>;
          rp = (right g)\<lparr>LeftPaddle.x := World.w wd - padInset wd - padW wd,
                          LeftPaddle.y := py, LeftPaddle.vy := Fin 0,
                          lastReactAt := Fin 0\<rparr>;
          bl = (ball g)\<lparr>GameBall.x := World.w wd * lit 0.5,
                         GameBall.y := World.h wd * lit 0.5,
                         GameBall.vx := Fin 0, GameBall.vy := Fin 0, glow := Fin 0\<rparr>
      in setMode m (g\<lparr>world := wd, left := lp, right := rp, ball := bl\<rparr>))"

definition score :: "ScoreSide \<Rightarrow> Env \<Rightarrow> Game \<Rightarrow> Game" where
  "score side env g0 =
     (let st = state g0;
          st = (if side = L then st\<lparr>scoreL := scoreL st + Fin 1\<rparr>
                else st\<lparr>scoreR := scoreR st + Fin 1\<rparr>);
          g = g0\<lparr>state := st\<rparr>
      in if scoreL st \<ge> maxScore st \<or> scoreR st \<ge> maxScore st
         then setMode Over g
         else resetRound Serve env g)"

text \<open>
  The closure \<open>hitPaddle\<close> of \<open>ballStep\<close>, with the ball radius \<open>r\<close> it captures as
  the argument \<open>rad\<close>. It takes the left or the right paddle object and the flag
  \<open>isLeft\<close> (here \<open>leftSide\<close>), and returns its boolean together with the updated game.
\<close>

definition hitPaddle ::
  "Env \<Rightarrow> number \<Rightarrow> Game \<Rightarrow> 'a LeftPaddle_scheme \<Rightarrow> bool \<Rightarrow> bool \<times> Game" where
  "hitPaddle env rad g p leftSide =
     (let px0 = LeftPaddle.x p;
          px1 = LeftPaddle.x p + padW (world g);
          py0 = LeftPaddle.y p;
          py1 = LeftPaddle.y p + padH (world g);
          bx0 = GameBall.x (ball g) - rad;
          bx1 = GameBall.x (ball g) + rad;
          by0 = GameBall.y (ball g) - rad;
          by1 = GameBall.y (ball g) + rad
      in
      if bx1 < px0 \<or> bx0 > px1 \<or> by1 < py0 \<or> by0 > py1 then (False, g)
      else
        let dpr = DPR env;
            res = resolvePaddleHit \<lparr>
              paddle = \<lparr>Paddle.x = LeftPaddle.x p, y = LeftPaddle.y p, vy = LeftPaddle.vy p,
                          w = padW (world g), h = padH (world g)\<rparr>,
              ball = \<lparr>Ball.x = GameBall.x (ball g), y = GameBall.y (ball g),
                        vx = GameBall.vx (ball g), vy = GameBall.vy (ball g), r = rad\<rparr>,
              isLeft = leftSide,
              speedUp = DifficultyConfig.speedUp (diff (state g)),
              maxSpeed = Fin 1780,
              dpr = dpr\<rparr>
        in if \<not> hit res then (False, g)
           else (True, g\<lparr>ball := (ball g)\<lparr>GameBall.x := HitResult.x res,
                                              GameBall.vx := HitResult.vx res,
                                              GameBall.vy := HitResult.vy res,
                                              glow := Fin 1\<rparr>\<rparr>))"

text \<open>
  \<open>ballStep\<close> in play mode, up to the scoring test: integration, the bounce off the top
  and bottom walls, and the collision with the paddle the ball moves towards.
\<close>

definition ballAdvance :: "number \<Rightarrow> Env \<Rightarrow> Game \<Rightarrow> Game" where
  "ballAdvance dt env g =
     (let b = ball g;
          b = b\<lparr>GameBall.x := GameBall.x b + GameBall.vx b * dt\<rparr>;
          b = b\<lparr>GameBall.y := GameBall.y b + GameBall.vy b * dt\<rparr>;
          r = ballR (world g);
          b = (if GameBall.y b < r
               then b\<lparr>GameBall.y := r, GameBall.vy := Math_abs (GameBall.vy b),
                       glow := Fin 1\<rparr>
               else if GameBall.y b > World.h (world g) - r
               then b\<lparr>GameBall.y := World.h (world g) - r,
                       GameBall.vy := - Math_abs (GameBall.vy b), glow := Fin 1\<rparr>
               else b);
          g = g\<lparr>ball := b\<rparr>
      in if GameBall.vx (ball g) < Fin 0 then snd (hitPaddle env r g (left g) True)
         else snd (hitPaddle env r g (right g) False))"

definition ballStep :: "number \<Rightarrow> Env \<Rightarrow> Game \<Rightarrow> Game" where
  "ballStep dt env g =
     (if mode (state g) \<noteq> Play then
        let b = ball g;
            b = b\<lparr>GameBall.x :=
                    lerp (GameBall.x b) (World.w (world g) * lit 0.5)
                         (Fin 1 - Math_exp (Fin (- 8) * dt))\<rparr>;
            b = b\<lparr>GameBall.y :=
                    lerp (GameBall.y b) (World.h (world g) * lit 0.5)
                         (Fin 1 - Math_exp (Fin (- 8) * dt))\<rparr>;
            b = b\<lparr>glow := lerp (glow b) (Fin 0) (Fin 1 - Math_exp (Fin (- 6) * dt))\<rparr>
        in g\<lparr>ball := b\<rparr>
      else
        let r = ballR (world g);
            g = ballAdvance dt env g;
            g = (if GameBall.x (ball g) < - r * Fin 2 then score R env g
                 else if GameBall.x (ball g) > World.w (world g) + r * Fin 2 then score L env g
                 else g)
        in g\<lparr>ball := (ball g)\<lparr>glow :=
                 lerp (glow (ball g)) (Fin 0) (Fin 1 - Math_exp (Fin (- 5) * dt))\<rparr>\<rparr>)"

section \<open>Terms of the specification\<close>

text \<open>
  The specification takes every input to be a finite number, that is, a binary64 value:
  a real that rounding leaves as it is. The theorems on the collision resolver are
  stated for finite inputs; an infinity or NaN arises only inside a computation, from an
  overflow or a division by zero.
\<close>

fun is_fin :: "number \<Rightarrow> bool" where
  "is_fin (Fin a) = (round64 a = Fin a)"
| "is_fin _ = False"

definition finite_paddle :: "Paddle \<Rightarrow> bool" where
  "finite_paddle p = (is_fin (Paddle.x p) \<and> is_fin (Paddle.y p) \<and> is_fin (Paddle.vy p)
      \<and> is_fin (Paddle.w p) \<and> is_fin (Paddle.h p))"

definition finite_ball :: "Ball \<Rightarrow> bool" where
  "finite_ball b = (is_fin (Ball.x b) \<and> is_fin (Ball.y b) \<and> is_fin (Ball.vx b)
      \<and> is_fin (Ball.vy b) \<and> is_fin (Ball.r b))"

definition finite_opts :: "Opts \<Rightarrow> bool" where
  "finite_opts opts = (finite_paddle (Opts.paddle opts) \<and> finite_ball (Opts.ball opts)
      \<and> is_fin (Opts.speedUp opts) \<and> is_fin (Opts.maxSpeed opts) \<and> is_fin (Opts.dpr opts))"

definition finite_pad :: "'a LeftPaddle_scheme \<Rightarrow> bool" where
  "finite_pad p = (is_fin (LeftPaddle.x p) \<and> is_fin (LeftPaddle.y p) \<and> is_fin (LeftPaddle.vy p))"

definition finite_game_ball :: "GameBall \<Rightarrow> bool" where
  "finite_game_ball b = (is_fin (GameBall.x b) \<and> is_fin (GameBall.y b)
      \<and> is_fin (GameBall.vx b) \<and> is_fin (GameBall.vy b))"

text \<open>
  The paddle's rectangle and the ball's bounding square, as sets of points of the plane:
  each is the axis-aligned box spanned by the two opposite corners that
  \<open>resolvePaddleHit\<close> computes, \<open>(px0, py0)\<close>, \<open>(px1, py1)\<close> and \<open>(bx0, by0)\<close>,
  \<open>(bx1, by1)\<close>.
\<close>

definition between :: "number \<Rightarrow> number \<Rightarrow> number \<Rightarrow> bool" where
  "between a b c = (a \<le> c \<and> c \<le> b \<or> b \<le> c \<and> c \<le> a)"

definition paddle_rect :: "Paddle \<Rightarrow> (real \<times> real) set" where
  "paddle_rect p = {(u, v).
      between (Paddle.x p) (Paddle.x p + Paddle.w p) (Fin u) \<and>
      between (Paddle.y p) (Paddle.y p + Paddle.h p) (Fin v)}"

definition ball_box :: "Ball \<Rightarrow> (real \<times> real) set" where
  "ball_box b = {(u, v).
      between (Ball.x b - Ball.r b) (Ball.x b + Ball.r b) (Fin u) \<and>
      between (Ball.y b - Ball.r b) (Ball.y b + Ball.r b) (Fin v)}"

text \<open>
  What a round reset leaves behind: the ball at rest in the centre of the field and both
  paddles at rest at mid-height.
\<close>

definition round_is_reset :: "Game \<Rightarrow> bool" where
  "round_is_reset g =
     (GameBall.x (ball g) = World.w (world g) * lit 0.5 \<and>
      GameBall.y (ball g) = World.h (world g) * lit 0.5 \<and>
      GameBall.vx (ball g) = Fin 0 \<and> GameBall.vy (ball g) = Fin 0 \<and>
      LeftPaddle.y (left g) = (World.h (world g) - padH (world g)) * lit 0.5 \<and>
      LeftPaddle.y (right g) = (World.h (world g) - padH (world g)) * lit 0.5 \<and>
      LeftPaddle.vy (left g) = Fin 0 \<and> LeftPaddle.vy (right g) = Fin 0)"

section \<open>Concrete inputs\<close>

text \<open>The three calls of the test suite of \<open>resolvePaddleHit\<close>.\<close>

definition test_no_hit :: Opts where
  "test_no_hit = \<lparr>
     paddle = \<lparr>Paddle.x = Fin 20, y = Fin 20, vy = Fin 0, w = Fin 10, h = Fin 50\<rparr>,
     ball = \<lparr>Ball.x = Fin 200, y = Fin 200, vx = Fin (- 100), vy = Fin 0, r = Fin 5\<rparr>,
     isLeft = True, speedUp = lit 1.05, maxSpeed = Fin 1780, dpr = Fin 1\<rparr>"

definition test_left_hit :: Opts where
  "test_left_hit = \<lparr>
     paddle = \<lparr>Paddle.x = Fin 20, y = Fin 100, vy = Fin 0, w = Fin 10, h = Fin 80\<rparr>,
     ball = \<lparr>Ball.x = Fin 29, y = Fin 140, vx = Fin (- 400), vy = Fin 0, r = Fin 6\<rparr>,
     isLeft = True, speedUp = Fin 1, maxSpeed = Fin 1780, dpr = Fin 1\<rparr>"

definition test_right_hit :: Opts where
  "test_right_hit = \<lparr>
     paddle = \<lparr>Paddle.x = Fin 200, y = Fin 100, vy = Fin 0, w = Fin 10, h = Fin 80\<rparr>,
     ball = \<lparr>Ball.x = Fin 211, y = Fin 140, vx = Fin 400, vy = Fin 0, r = Fin 6\<rparr>,
     isLeft = False, speedUp = Fin 1, maxSpeed = Fin 1780, dpr = Fin 1\<rparr>"

text \<open>The left-paddle test call with a negative speed cap.\<close>

definition negative_cap_hit :: Opts where
  "negative_cap_hit = test_left_hit\<lparr>maxSpeed := Fin (- 1)\<rparr>"

text \<open>The left-paddle test call with a ball at rest.\<close>

definition still_ball_hit :: Opts where
  "still_ball_hit = test_left_hit\<lparr>Opts.ball :=
     \<lparr>Ball.x = Fin 29, y = Fin 140, vx = Fin 0, vy = Fin 0, r = Fin 6\<rparr>\<rparr>"

text \<open>A paddle of height zero, with the ball's centre level with it.\<close>

definition flat_paddle_hit :: Opts where
  "flat_paddle_hit = \<lparr>
     paddle = \<lparr>Paddle.x = Fin 20, y = Fin 100, vy = Fin 0, w = Fin 10, h = Fin 0\<rparr>,
     ball = \<lparr>Ball.x = Fin 29, y = Fin 100, vx = Fin (- 400), vy = Fin 0, r = Fin 6\<rparr>,
     isLeft = True, speedUp = Fin 1, maxSpeed = Fin 1780, dpr = Fin 1\<rparr>"

text \<open>
  The module-level initial objects of main.ts (\<open>lastT\<close>, a clock reading, taken as
  zero), on a canvas of the size of the initial world.
\<close>

definition initial_game :: Game where
  "initial_game = \<lparr>
     state = \<lparr>mode = Attract, diff = Difficulty_Normal, sound = True, scoreL = Fin 0,
              scoreR = Fin 0, maxScore = Fin 11, lastT = Fin 0, t = Fin 0\<rparr>,
     world = \<lparr>World.w = Fin 960, h = Fin 540, padW = Fin 16, padH = Fin 108, padInset = Fin 36,
              ballR = lit 9.5, netW = Fin 5, netGap = Fin 18\<rparr>,
     left = \<lparr>LeftPaddle.x = Fin 0, y = Fin 0, vy = Fin 0, targetY = None\<rparr>,
     right = \<lparr>LeftPaddle.x = Fin 0, y = Fin 0, vy = Fin 0, targetY = None, lastReactAt = Fin 0\<rparr>,
     ball = \<lparr>GameBall.x = Fin 0, y = Fin 0, vx = Fin 0, vy = Fin 0, glow = Fin 0\<rparr>,
     canvas = \<lparr>width = Fin 960, height = Fin 540\<rparr>\<rparr>"

definition plain_env :: Env where
  "plain_env = \<lparr>devicePixelRatio = Fin 1, rectWidth = Fin 960, rectHeight = Fin 540\<rparr>"

text \<open>A game in play: the ball, moving left, overlaps the left paddle at its centre.\<close>

definition left_hit_game :: Game where
  "left_hit_game = initial_game\<lparr>
     state := (state initial_game)\<lparr>mode := Play\<rparr>,
     left := \<lparr>LeftPaddle.x = Fin 36, y = Fin 216, vy = Fin 0, targetY = None\<rparr>,
     ball := \<lparr>GameBall.x = Fin 50, y = Fin 270, vx = Fin (- 900), vy = Fin 0, glow = Fin 0\<rparr>\<rparr>"

text \<open>A game in play: the ball, moving right, is about to leave the field on the right.\<close>

definition right_exit_game :: Game where
  "right_exit_game = initial_game\<lparr>
     state := (state initial_game)\<lparr>mode := Play\<rparr>,
     left := \<lparr>LeftPaddle.x = Fin 36, y = Fin 216, vy = Fin 0, targetY = None\<rparr>,
     right := \<lparr>LeftPaddle.x = Fin 908, y = Fin 216, vy = Fin 0, targetY = None,
               lastReactAt = Fin 0\<rparr>,
     ball := \<lparr>GameBall.x = Fin 970, y = Fin 270, vx = Fin 900, vy = Fin 0, glow = Fin 0\<rparr>\<rparr>"

text \<open>The same, with the left side one point short of the match target.\<close>

definition match_point_game :: Game where
  "match_point_game = right_exit_game\<lparr>
     state := (state right_exit_game)\<lparr>scoreL := Fin 10\<rparr>\<rparr>"

section \<open>Properties of rounding\<close>

lemma pow2_pos [simp]: "0 < pow2 k"
  by (simp add: pow2_def)

lemma pow2_nonzero [simp]: "pow2 k \<noteq> 0"
  by (simp add: pow2_def)

lemma pow2_nonneg [simp]: "0 \<le> pow2 k"
  by (simp add: pow2_def)

lemma pow2_abs [simp]: "\<bar>pow2 k\<bar> = pow2 k"
  by (simp add: pow2_def)

lemma pow2_not_le_zero [simp]: "\<not> pow2 k \<le> 0"
  by (simp add: pow2_def not_le)

lemma pow2_add: "pow2 (a + b) = pow2 a * pow2 b"
  by (simp add: pow2_def powr_add)

lemma pow2_nat: "pow2 (int n) = 2 ^ n"
  by (simp add: pow2_def powr_realpow)

lemma pow2_neg_nat: "pow2 (- int n) = 1 / 2 ^ n"
  by (simp add: pow2_def powr_minus powr_realpow divide_inverse)

lemma expo_bounds:
  assumes "z \<noteq> 0"
  shows "pow2 (expo z) \<le> \<bar>z\<bar>" "\<bar>z\<bar> < pow2 (expo z + 1)"
proof -
  from assms have "0 < \<bar>z\<bar>" by simp
  then have "2 powr real_of_int (expo z) \<le> \<bar>z\<bar> \<and> \<bar>z\<bar> < 2 powr (real_of_int (expo z) + 1)"
    using floor_log_eq_powr_iff[of "\<bar>z\<bar>" 2 "expo z"] by (simp add: expo_def)
  then show "pow2 (expo z) \<le> \<bar>z\<bar>" "\<bar>z\<bar> < pow2 (expo z + 1)"
    by (simp_all add: pow2_def)
qed

lemma expo_eqI:
  assumes "pow2 e \<le> \<bar>z\<bar>" "\<bar>z\<bar> < pow2 (e + 1)"
  shows "expo z = e"
proof -
  from assms(1) have "0 < \<bar>z\<bar>" using pow2_pos[of e] by linarith
  then show ?thesis
    using floor_log_eq_powr_iff[of "\<bar>z\<bar>" 2 e] assms by (simp add: expo_def pow2_def)
qed

lemma round_even_err: "\<bar>of_int (round_even q) - q\<bar> \<le> 1 / 2"
  unfolding round_even_def Let_def by (auto; linarith)

lemma round_even_near:
  assumes "\<bar>q - of_int k\<bar> < 1 / 2"
  shows "round_even q = k"
proof -
  have "\<bar>of_int (round_even q) - q\<bar> \<le> 1 / 2" by (rule round_even_err)
  with assms have "\<bar>(of_int (round_even q) :: real) - of_int k\<bar> < 1" by linarith
  then have "\<bar>round_even q - k\<bar> < 1"
    by (metis of_int_diff of_int_abs of_int_less_iff of_int_1)
  then show ?thesis by simp
qed

lemma round_even_int [simp]: "round_even (of_int k) = k"
  by (rule round_even_near) simp

lemma rnd_err:
  assumes "z \<noteq> 0"
  shows "\<bar>rnd z - z\<bar> \<le> pow2 (expo z - 53)"
proof -
  let ?u = "pow2 (expo z - 52)"
  have u: "0 < ?u" by simp
  have "rnd z - z = (of_int (round_even (z / ?u)) - z / ?u) * ?u"
    using assms by (simp add: rnd_def field_simps)
  then have "\<bar>rnd z - z\<bar> = \<bar>of_int (round_even (z / ?u)) - z / ?u\<bar> * ?u"
    by (simp add: abs_mult)
  also have "\<dots> \<le> 1 / 2 * ?u"
    using round_even_err[of "z / ?u"] u by (intro mult_right_mono) simp_all
  also have "\<dots> = pow2 (expo z - 53)"
  proof -
    have "pow2 (expo z - 52) = pow2 (expo z - 53) * pow2 1"
      using pow2_add[of "expo z - 53" 1] by simp
    then show ?thesis by (simp add: pow2_def)
  qed
  finally show ?thesis .
qed

lemma rnd_zero [simp]: "rnd 0 = 0"
  by (simp add: rnd_def)

lemma rnd_abs_err: "\<bar>rnd z - z\<bar> \<le> \<bar>z\<bar> / 2 ^ 53"
proof (cases "z = 0")
  case True
  then show ?thesis by simp
next
  case False
  have "pow2 (expo z - 53) = pow2 (expo z) * pow2 (- 53)"
    using pow2_add[of "expo z" "- 53"] by simp
  also have "\<dots> = pow2 (expo z) / 2 ^ 53"
    using pow2_neg_nat[of 53] by simp
  also have "\<dots> \<le> \<bar>z\<bar> / 2 ^ 53"
    using expo_bounds(1)[OF False] by (simp add: divide_right_mono)
  finally show ?thesis using rnd_err[OF False] by linarith
qed

lemma rnd_rel: "\<exists>e. \<bar>e\<bar> \<le> 1 / 2 ^ 53 \<and> rnd z = z * (1 + e)"
proof (cases "z = 0")
  case True
  then show ?thesis by (intro exI[of _ 0]) simp
next
  case False
  let ?e = "(rnd z - z) / z"
  have "\<bar>?e\<bar> = \<bar>rnd z - z\<bar> / \<bar>z\<bar>" by (simp add: abs_divide)
  also have "\<dots> \<le> (\<bar>z\<bar> / 2 ^ 53) / \<bar>z\<bar>"
    using rnd_abs_err[of z] by (intro divide_right_mono) simp_all
  also have "\<dots> = 1 / 2 ^ 53" using False by simp
  finally have "\<bar>?e\<bar> \<le> 1 / 2 ^ 53" .
  moreover have "rnd z = z * (1 + ?e)" using False by (simp add: field_simps)
  ultimately show ?thesis by blast
qed

lemma rnd_pos: "0 < z \<Longrightarrow> 0 < rnd z"
proof -
  assume z: "0 < z"
  obtain e where e: "\<bar>e\<bar> \<le> 1 / 2 ^ 53" "rnd z = z * (1 + e)" using rnd_rel by blast
  have "(1::real) / 2 ^ 53 < 1" by simp
  with e(1) have "0 < 1 + e" by linarith
  with z e(2) show ?thesis by simp
qed

lemma rnd_neg: "z < 0 \<Longrightarrow> rnd z < 0"
proof -
  assume z: "z < 0"
  obtain e where e: "\<bar>e\<bar> \<le> 1 / 2 ^ 53" "rnd z = z * (1 + e)" using rnd_rel by blast
  have "(1::real) / 2 ^ 53 < 1" by simp
  with e(1) have "0 < 1 + e" by linarith
  with z e(2) show ?thesis by (simp add: mult_neg_pos)
qed

lemma rnd_zero_iff [simp]: "rnd z = 0 \<longleftrightarrow> z = 0"
proof
  assume "rnd z = 0"
  with rnd_pos[of z] rnd_neg[of z] show "z = 0" by (cases z "0::real" rule: linorder_cases) auto
qed simp

lemma rnd_nonneg: "0 \<le> z \<Longrightarrow> 0 \<le> rnd z"
  using rnd_pos[of z] by (cases "z = 0") (auto simp: order_le_less)

lemma rnd_nonpos: "z \<le> 0 \<Longrightarrow> rnd z \<le> 0"
  using rnd_neg[of z] by (cases "z = 0") (auto simp: order_le_less)

lemma rnd_cell:
  assumes "pow2 e \<le> \<bar>z\<bar>" "\<bar>z\<bar> < pow2 (e + 1)"
    and "\<bar>z / pow2 (e - 52) - of_int k\<bar> < 1 / 2"
  shows "rnd z = of_int k * pow2 (e - 52)"
proof -
  from assms(1) have nz: "z \<noteq> 0" using pow2_pos[of e] by auto
  have e: "expo z = e" using assms(1,2) by (rule expo_eqI)
  have "round_even (z / pow2 (e - 52)) = k" using assms(3) by (rule round_even_near)
  with nz e show ?thesis by (simp add: rnd_def)
qed

lemma rnd_grid:
  assumes "z = of_int m * pow2 j" "\<bar>m\<bar> < 2 ^ 53"
  shows "rnd z = z"
proof (cases "z = 0")
  case True
  then show ?thesis by simp
next
  case False
  let ?e = "expo z"
  have "pow2 ?e \<le> \<bar>z\<bar>" by (rule expo_bounds(1)[OF False])
  also have "\<bar>z\<bar> = of_int \<bar>m\<bar> * pow2 j" by (simp add: assms(1) abs_mult)
  also have "\<dots> < 2 ^ 53 * pow2 j"
  proof -
    from assms(2) have "real_of_int \<bar>m\<bar> < real_of_int (2 ^ 53)"
      by (simp only: of_int_less_iff)
    then have "real_of_int \<bar>m\<bar> < 2 ^ 53" by simp
    then show ?thesis by (intro mult_strict_right_mono) simp_all
  qed
  also have "\<dots> = pow2 (53 + j)" using pow2_add[of 53 j] pow2_nat[of 53] by simp
  finally have "pow2 ?e < pow2 (53 + j)" .
  then have "?e < 53 + j" by (simp add: pow2_def)
  then have "0 \<le> j - (?e - 52)" by linarith
  then obtain n where n: "j - (?e - 52) = int n" by (rule nonneg_int_cases)
  from n have "j = (?e - 52) + int n" by simp
  then have "pow2 j = pow2 ((?e - 52) + int n)" by simp
  also have "\<dots> = pow2 (?e - 52) * 2 ^ n"
    by (simp only: pow2_add pow2_nat)
  finally have pj: "pow2 j = pow2 (?e - 52) * 2 ^ n" .
  define u where "u = pow2 (?e - 52)"
  have u: "u \<noteq> 0" by (simp add: u_def)
  have "z = of_int m * (u * 2 ^ n)" using assms(1) pj by (simp add: u_def)
  then have q: "z / u = of_int (m * 2 ^ n)" using u by simp
  have "rnd z = of_int (round_even (z / u)) * u"
    using False by (simp add: rnd_def u_def)
  also have "\<dots> = of_int (m * 2 ^ n) * u"
    unfolding q by (simp only: round_even_int)
  also have "\<dots> = z" using q u by (simp add: field_simps)
  finally show ?thesis .
qed

lemma rnd_int: "\<bar>n\<bar> < 2 ^ 53 \<Longrightarrow> rnd (of_int n) = of_int n"
  using rnd_grid[of "of_int n" n 0] by (simp add: pow2_def)

lemma rnd_dyadic: "\<bar>n\<bar> < 2 ^ 53 \<Longrightarrow> rnd (of_int n / 2 ^ j) = of_int n / 2 ^ j"
  using rnd_grid[of "of_int n / 2 ^ j" n "- int j"] by (simp add: pow2_neg_nat)

lemma round64_not_NaN [simp]: "round64 z \<noteq> NaN"
  by (simp add: round64_def)

lemma round64_zero [simp]: "round64 0 = Fin 0"
  by (simp add: round64_def)

lemma round64_exact:
  assumes "rnd z = z" "\<bar>z\<bar> < 2 ^ 1024"
  shows "round64 z = Fin z"
  using assms by (simp add: round64_def)

lemma round64_int: "\<bar>n\<bar> < 2 ^ 53 \<Longrightarrow> round64 (of_int n) = Fin (of_int n)"
proof -
  assume n: "\<bar>n\<bar> < 2 ^ 53"
  then have "real_of_int \<bar>n\<bar> < real_of_int (2 ^ 53)" by (simp only: of_int_less_iff)
  then have "\<bar>real_of_int n\<bar> < 2 ^ 53" by simp
  also have "(2::real) ^ 53 < 2 ^ 1024" by simp
  finally show ?thesis using rnd_int[OF n] by (intro round64_exact)
qed

lemma round64_numeral [simp]:
  "(numeral k :: int) < 2 ^ 53 \<Longrightarrow> round64 (numeral k) = Fin (numeral k)"
  using round64_int[of "numeral k"] by simp

lemma round64_neg_numeral [simp]:
  "(numeral k :: int) < 2 ^ 53 \<Longrightarrow> round64 (- numeral k) = Fin (- numeral k)"
  using round64_int[of "- numeral k"] by simp

lemma round64_one [simp]: "round64 1 = Fin 1"
  using round64_int[of 1] by simp

lemma round64_neg_one [simp]: "round64 (- 1) = Fin (- 1)"
  using round64_int[of "- 1"] by simp

lemma rnd_bound: "\<bar>rnd z\<bar> \<le> 2 * \<bar>z\<bar>"
proof -
  have "\<bar>rnd z - z\<bar> \<le> \<bar>z\<bar> / 2 ^ 53" by (rule rnd_abs_err)
  also have "\<dots> \<le> \<bar>z\<bar>" by (simp add: divide_le_eq)
  finally show ?thesis by linarith
qed

lemma round64_small: "\<bar>z\<bar> \<le> 2 ^ 1000 \<Longrightarrow> round64 z = Fin (rnd z)"
proof -
  assume "\<bar>z\<bar> \<le> 2 ^ 1000"
  with rnd_bound[of z] have "\<bar>rnd z\<bar> \<le> 2 * 2 ^ 1000" by linarith
  also have "(2::real) * 2 ^ 1000 < 2 ^ 1024" by simp
  finally show ?thesis by (simp add: round64_def)
qed

lemma round64_cases:
  obtains (fin) "round64 z = Fin (rnd z)" "\<bar>rnd z\<bar> < 2 ^ 1024"
  | (pos) "round64 z = PosInf" "0 < z"
  | (neg) "round64 z = NegInf" "z < 0"
proof (cases "2 ^ 1024 \<le> \<bar>rnd z\<bar>")
  case False
  then show ?thesis by (intro fin) (simp_all add: round64_def)
next
  case True
  then have "z \<noteq> 0" by auto
  with True show ?thesis
    by (cases "0 < z") (auto simp: round64_def intro: pos neg)
qed

lemma round64_pos: "0 < z \<Longrightarrow> Fin 0 < round64 z"
  using rnd_pos[of z] by (simp add: round64_def)

lemma round64_neg: "z < 0 \<Longrightarrow> round64 z < Fin 0"
  using rnd_neg[of z] by (simp add: round64_def)

lemma round64_nonneg: "0 \<le> z \<Longrightarrow> Fin 0 \<le> round64 z"
  using rnd_nonneg[of z] by (simp add: round64_def)

lemma round64_nonpos: "z \<le> 0 \<Longrightarrow> round64 z \<le> Fin 0"
  using rnd_nonpos[of z] by (simp add: round64_def)

lemma round64_eq_zero_iff [simp]: "round64 z = Fin 0 \<longleftrightarrow> z = 0"
  by (auto simp: round64_def)

lemma round64_dyadic:
  assumes "\<bar>n\<bar> < 2 ^ 53"
  shows "round64 (of_int n / 2 ^ j) = Fin (of_int n / 2 ^ j)"
proof -
  from assms have "real_of_int \<bar>n\<bar> < real_of_int (2 ^ 53)" by (simp only: of_int_less_iff)
  then have n: "\<bar>real_of_int n\<bar> < 2 ^ 53" by simp
  have "\<bar>real_of_int n / 2 ^ j\<bar> = \<bar>real_of_int n\<bar> / 2 ^ j" by simp
  also have "\<dots> \<le> \<bar>real_of_int n\<bar>"
  proof -
    have "(1::real) \<le> 2 ^ j" by simp
    then have "\<bar>real_of_int n\<bar> * 1 \<le> \<bar>real_of_int n\<bar> * 2 ^ j"
      by (intro mult_left_mono) simp_all
    then show ?thesis by (simp add: divide_le_eq)
  qed
  also have "\<dots> < 2 ^ 1024" using n by simp
  finally show ?thesis using rnd_dyadic[OF assms] by (intro round64_exact)
qed

lemma lit_half [simp]: "lit (1 / 2) = Fin (1 / 2)"
  using round64_dyadic[of 1 1] by (simp add: lit_def)

lemma lit_three_quarters [simp]: "lit (3 / 4) = Fin (3 / 4)"
  using round64_dyadic[of 3 2] by (simp add: lit_def)

lemma lit_five_halves [simp]: "lit (5 / 2) = Fin (5 / 2)"
  using round64_dyadic[of 5 1] by (simp add: lit_def)

lemma lit_small: "\<bar>c\<bar> \<le> 2 ^ 1000 \<Longrightarrow> lit c = Fin (rnd c)"
  by (simp add: lit_def round64_small)

section \<open>The kernel: clamp and foldYReflect\<close>

lemma trunc_unit: "0 \<le> q \<Longrightarrow> q < 1 \<Longrightarrow> trunc q = 0"
  by (simp add: trunc_def floor_eq_iff)

lemma trunc_unit_neg: "- 1 < q \<Longrightarrow> q < 0 \<Longrightarrow> trunc q = 0"
  by (simp add: trunc_def ceiling_eq_iff)

lemma js_rem_small:
  assumes "0 \<le> a" "a < b"
  shows "js_rem (Fin a) (Fin b) = Fin a"
proof -
  from assms have "0 \<le> a / b" "a / b < 1" by simp_all
  then have "trunc (a / b) = 0" by (rule trunc_unit)
  with assms show ?thesis by simp
qed

lemma js_rem_small_neg:
  assumes "- b < a" "a < 0"
  shows "js_rem (Fin a) (Fin b) = Fin a"
proof -
  from assms have b: "0 < b" by simp
  with assms have "- 1 < a / b" "a / b < 0"
    by (simp_all add: pos_less_divide_eq divide_neg_pos)
  then have "trunc (a / b) = 0" by (rule trunc_unit_neg)
  with b show ?thesis by simp
qed

lemma js_rem_period:
  assumes "0 < b"
  shows "js_rem (Fin b) (Fin b) = Fin 0"
  using assms by (simp add: trunc_def)

lemma js_rem_wrap:
  assumes "b \<le> a" "a < 2 * b" "0 < b"
  shows "js_rem (Fin a) (Fin b) = Fin (a - b)"
proof -
  from assms have "1 \<le> a / b" "a / b < 2"
    by (simp_all add: pos_le_divide_eq pos_divide_less_eq)
  then have "\<lfloor>a / b\<rfloor> = 1" by (simp add: floor_eq_iff)
  with \<open>1 \<le> a / b\<close> have "trunc (a / b) = 1" by (simp add: trunc_def)
  with assms show ?thesis by simp
qed

text \<open>The body of foldYReflect when each sum and difference it forms is exact.\<close>

lemma fold_steps:
  assumes "0 < s"
    and "round64 (hi0 - lo) = Fin s"
    and "round64 (y0 - lo) = Fin v0"
    and "round64 (2 * s) = Fin (2 * s)"
    and "js_rem (Fin v0) (Fin (2 * s)) = Fin v1"
    and "round64 (v1 + 2 * s) = Fin v2"
    and "js_rem (Fin v2) (Fin (2 * s)) = Fin v3"
    and "round64 (2 * s - v3) = Fin v4"
  shows "foldYReflect (Fin y0) (Fin lo) (Fin hi0) =
           round64 ((if s < v3 then v4 else v3) + lo)"
  using assms
  by (simp add: foldYReflect_def minus_number_def Let_def del: js_rem.simps)

lemma round64_intI: "z = real_of_int n \<Longrightarrow> \<bar>n\<bar> < 2 ^ 53 \<Longrightarrow> round64 z = Fin (real_of_int n)"
  using round64_int[of n] by simp

lemma fold_int_inside:
  fixes lo0 hi0 a :: int
  assumes "lo0 < hi0" "\<bar>lo0\<bar> \<le> 2 ^ 50" "\<bar>hi0\<bar> \<le> 2 ^ 50" "lo0 \<le> a" "a \<le> hi0"
  shows "foldYReflect (Fin (of_int a)) (Fin (of_int lo0)) (Fin (of_int hi0)) = Fin (of_int a)"
proof -
  define s where "s = hi0 - lo0"
  define d where "d = a - lo0"
  from assms have s: "0 < s" "s \<le> 2 ^ 51" and d: "0 \<le> d" "d \<le> s"
    by (simp_all add: s_def d_def)
  have 1: "round64 (real_of_int hi0 - real_of_int lo0) = Fin (real_of_int s)"
    using round64_int[of s] s by (simp add: s_def)
  have 2: "round64 (real_of_int a - real_of_int lo0) = Fin (real_of_int d)"
    using round64_int[of d] s d by (simp add: d_def)
  have 3: "round64 (2 * real_of_int s) = Fin (2 * real_of_int s)"
    using round64_int[of "2 * s"] s by simp
  have 4: "js_rem (Fin (real_of_int d)) (Fin (2 * real_of_int s)) = Fin (real_of_int d)"
    using s d by (intro js_rem_small) simp_all
  have 5: "round64 (real_of_int d + 2 * real_of_int s) = Fin (real_of_int (d + 2 * s))"
    using round64_int[of "d + 2 * s"] s d by simp
  have 6: "js_rem (Fin (real_of_int (d + 2 * s))) (Fin (2 * real_of_int s)) = Fin (real_of_int d)"
    using js_rem_wrap[of "2 * real_of_int s" "real_of_int (d + 2 * s)"] s d by simp
  have 7: "round64 (2 * real_of_int s - real_of_int d) = Fin (real_of_int (2 * s - d))"
    using round64_int[of "2 * s - d"] s d by simp
  have 8: "round64 (real_of_int d + real_of_int lo0) = Fin (real_of_int a)"
    using round64_int[of a] assms by (simp add: d_def)
  from s have sr: "0 < real_of_int s" by simp
  show ?thesis
    using fold_steps[OF sr 1 2 3 4 5 6 7] d 8 by simp
qed

lemma fold_int_above:
  fixes lo0 hi0 k :: int
  assumes "lo0 < hi0" "\<bar>lo0\<bar> \<le> 2 ^ 50" "\<bar>hi0\<bar> \<le> 2 ^ 50" "0 < k" "k \<le> hi0 - lo0"
  shows "foldYReflect (Fin (of_int (hi0 + k))) (Fin (of_int lo0)) (Fin (of_int hi0)) =
           Fin (of_int (hi0 - k))"
proof -
  define s where "s = hi0 - lo0"
  from assms have s: "0 < s" "s \<le> 2 ^ 51" and k: "0 < k" "k \<le> s"
    by (simp_all add: s_def)
  from s have sr: "0 < real_of_int s" by simp
  have 1: "round64 (real_of_int hi0 - real_of_int lo0) = Fin (real_of_int s)"
    using round64_int[of s] s by (simp add: s_def)
  have 2: "round64 (real_of_int (hi0 + k) - real_of_int lo0) = Fin (real_of_int (s + k))"
    using s k by (intro round64_intI) (simp_all add: s_def)
  have 3: "round64 (2 * real_of_int s) = Fin (2 * real_of_int s)"
    using round64_int[of "2 * s"] s by simp
  have 8: "round64 (real_of_int (s - k) + real_of_int lo0) = Fin (real_of_int (hi0 - k))"
    using round64_int[of "hi0 - k"] assms by (simp add: s_def)
  show ?thesis
  proof (cases "k = s")
    case True
    have 4: "js_rem (Fin (real_of_int (s + k))) (Fin (2 * real_of_int s)) = Fin 0"
      using js_rem_period[of "2 * real_of_int s"] s True by simp
    have 5: "round64 (0 + 2 * real_of_int s) = Fin (2 * real_of_int s)"
      using 3 by simp
    have 6: "js_rem (Fin (2 * real_of_int s)) (Fin (2 * real_of_int s)) = Fin 0"
      using js_rem_period[of "2 * real_of_int s"] s by simp
    have 7: "round64 (2 * real_of_int s - 0) = Fin (2 * real_of_int s)"
      using 3 by simp
    show ?thesis
      using fold_steps[OF sr 1 2 3 4 5 6 7] s 8 True by simp
  next
    case False
    with k have lt: "k < s" by simp
    have 4: "js_rem (Fin (real_of_int (s + k))) (Fin (2 * real_of_int s)) = Fin (real_of_int (s + k))"
      using s k lt by (intro js_rem_small) simp_all
    have 5: "round64 (real_of_int (s + k) + 2 * real_of_int s) = Fin (real_of_int (s + k + 2 * s))"
      using round64_int[of "s + k + 2 * s"] s k lt by simp
    have 6: "js_rem (Fin (real_of_int (s + k + 2 * s))) (Fin (2 * real_of_int s)) =
               Fin (real_of_int (s + k))"
      using js_rem_wrap[of "2 * real_of_int s" "real_of_int (s + k + 2 * s)"] s k lt by simp
    have 7: "round64 (2 * real_of_int s - real_of_int (s + k)) = Fin (real_of_int (s - k))"
      using round64_int[of "s - k"] s k by simp
    show ?thesis
      using fold_steps[OF sr 1 2 3 4 5 6 7] s k 8 by simp
  qed
qed

lemma fold_int_below:
  fixes lo0 hi0 k :: int
  assumes "lo0 < hi0" "\<bar>lo0\<bar> \<le> 2 ^ 50" "\<bar>hi0\<bar> \<le> 2 ^ 50" "0 < k" "k \<le> hi0 - lo0"
  shows "foldYReflect (Fin (of_int (lo0 - k))) (Fin (of_int lo0)) (Fin (of_int hi0)) =
           Fin (of_int (lo0 + k))"
proof -
  define s where "s = hi0 - lo0"
  from assms have s: "0 < s" "s \<le> 2 ^ 51" and k: "0 < k" "k \<le> s"
    by (simp_all add: s_def)
  from s have sr: "0 < real_of_int s" by simp
  have 1: "round64 (real_of_int hi0 - real_of_int lo0) = Fin (real_of_int s)"
    using round64_int[of s] s by (simp add: s_def)
  have 2: "round64 (real_of_int (lo0 - k) - real_of_int lo0) = Fin (real_of_int (- k))"
    using round64_int[of "- k"] s k by simp
  have 3: "round64 (2 * real_of_int s) = Fin (2 * real_of_int s)"
    using round64_int[of "2 * s"] s by simp
  have 4: "js_rem (Fin (real_of_int (- k))) (Fin (2 * real_of_int s)) = Fin (real_of_int (- k))"
    using s k by (intro js_rem_small_neg) simp_all
  have 5: "round64 (real_of_int (- k) + 2 * real_of_int s) = Fin (real_of_int (2 * s - k))"
    using round64_int[of "2 * s - k"] s k by simp
  have 6: "js_rem (Fin (real_of_int (2 * s - k))) (Fin (2 * real_of_int s)) =
             Fin (real_of_int (2 * s - k))"
    using s k by (intro js_rem_small) simp_all
  have 7: "round64 (2 * real_of_int s - real_of_int (2 * s - k)) = Fin (real_of_int k)"
    using round64_int[of k] s k by simp
  have 8: "round64 (real_of_int k + real_of_int lo0) = Fin (real_of_int (lo0 + k))"
    using round64_int[of "lo0 + k"] assms by (simp add: s_def add.commute)
  have 9: "round64 (real_of_int (2 * s - k) + real_of_int lo0) = Fin (real_of_int (lo0 + k))"
    if "k = s"
    using round64_int[of "lo0 + k"] assms that by (simp add: s_def)
  show ?thesis
  proof (cases "k = s")
    case True
    show ?thesis
      using fold_steps[OF sr 1 2 3 4 5 6 7] s k 9[OF True] True by simp
  next
    case False
    with k have "k < s" by simp
    then show ?thesis
      using fold_steps[OF sr 1 2 3 4 5 6 7] s k 8 by simp
  qed
qed



lemma above_one_double: "round64 (1 + 1 / 2 ^ 50) = Fin (1 + 1 / 2 ^ 50)"
proof -
  have "real_of_int (2 ^ 50 + 1) / 2 ^ 50 = 1 + 1 / 2 ^ 50"
    by (simp add: add_divide_distrib)
  with round64_dyadic[of "2 ^ 50 + 1" 50] show ?thesis by simp
qed

lemma rnd_twenty_one: "rnd (1 + 1 / 2 ^ 50 + 20) = 21"
proof -
  have p4: "pow2 4 = 16" and p5: "pow2 5 = 32" and p48: "pow2 (- 48) = 1 / 2 ^ 48"
    using pow2_nat[of 4] pow2_nat[of 5] pow2_neg_nat[of 48] by simp_all
  have "rnd (1 + 1 / 2 ^ 50 + 20) = real_of_int (21 * 2 ^ 48) * pow2 (4 - 52)"
    by (rule rnd_cell) (simp_all add: p4 p5 p48)
  then show ?thesis by (simp add: p48)
qed


text \<open>
  Claim C8. For every \<open>y\<close>, \<open>minY\<close>, \<open>maxY\<close> with \<open>maxY - minY \<le> 0\<close>,
  \<open>foldYReflect\<close> returns \<open>minY\<close>.
\<close>

theorem foldYReflect_degenerate:
  "maxY - minY \<le> Fin 0 \<Longrightarrow> foldYReflect y0 minY maxY = minY"
  by (simp add: foldYReflect_def)

theorem foldYReflect_degenerate_witness:
  "Fin 3 - Fin 7 \<le> Fin 0 \<and> foldYReflect (Fin 100) (Fin 7) (Fin 3) = Fin 7"
proof -
  have le: "Fin 3 - Fin 7 \<le> Fin 0" by (simp add: minus_number_def)
  from le foldYReflect_degenerate[OF le, of "Fin 100"] show ?thesis by simp
qed

text \<open>
  Claim C10, amended. For \<open>lo > hi\<close> and every \<open>v\<close> other than NaN, infinities
  included, \<open>clamp(v, lo, hi)\<close> returns \<open>lo\<close>. At \<open>v = NaN\<close> both \<open>Math.min\<close> and
  \<open>Math.max\<close> pass NaN on, and \<open>clamp\<close> returns NaN.
\<close>

theorem clamp_inverted_bounds:
  "hi < lo \<Longrightarrow> v \<noteq> NaN \<Longrightarrow> clamp v lo hi = lo"
  by (cases v; cases lo; cases hi) (simp_all add: clamp_def)

theorem clamp_inverted_bounds_witness:
  "Fin 0 < Fin 10 \<and> Fin 5 \<noteq> NaN \<and> clamp (Fin 5) (Fin 10) (Fin 0) = Fin 10
   \<and> PosInf \<noteq> NaN \<and> clamp PosInf (Fin 10) (Fin 0) = Fin 10"
  using clamp_inverted_bounds[of "Fin 0" "Fin 10" "Fin 5"]
    clamp_inverted_bounds[of "Fin 0" "Fin 10" PosInf]
  by simp

theorem clamp_inverted_bounds_counterexample:
  "Fin 0 < Fin 10 \<and> clamp NaN (Fin 10) (Fin 0) = NaN \<and> clamp NaN (Fin 10) (Fin 0) \<noteq> Fin 10"
  by (simp add: clamp_def)

section \<open>The collision resolver\<close>

subsection \<open>Signs, NaN and finite values\<close>

lemma rnd_pos_iff [simp]: "0 < rnd z \<longleftrightarrow> 0 < z"
  using rnd_pos[of z] rnd_nonpos[of z] by (auto simp: not_less[symmetric])

lemma rnd_neg_iff [simp]: "rnd z < 0 \<longleftrightarrow> z < 0"
  using rnd_neg[of z] rnd_nonneg[of z] by (auto simp: not_less[symmetric])

lemma rnd_nonneg_iff [simp]: "0 \<le> rnd z \<longleftrightarrow> 0 \<le> z"
  using rnd_neg_iff[of z] by (simp only: not_less[symmetric])

lemma rnd_nonpos_iff [simp]: "rnd z \<le> 0 \<longleftrightarrow> z \<le> 0"
  using rnd_pos_iff[of z] by (simp only: not_less[symmetric])

lemma round64_pos_iff [simp]: "Fin 0 < round64 z \<longleftrightarrow> 0 < z"
  by (simp add: round64_def)

lemma round64_neg_iff [simp]: "round64 z < Fin 0 \<longleftrightarrow> z < 0"
  by (cases "z = 0") (auto simp: round64_def not_less)

lemma is_finE:
  assumes "is_fin a"
  obtains c where "a = Fin c" "round64 c = Fin c"
  using assms by (cases a) auto

lemma double_bound: "round64 c = Fin c \<Longrightarrow> \<bar>c\<bar> < 2 ^ 1024"
  by (auto simp: round64_def split: if_splits)

lemma round64_half:
  assumes "round64 c = Fin c"
  shows "round64 (c / 2) = Fin (rnd (c / 2))"
proof -
  from assms have c: "\<bar>c\<bar> < 2 ^ 1024" by (rule double_bound)
  have "\<bar>rnd (c / 2)\<bar> \<le> 2 * \<bar>c / 2\<bar>" by (rule rnd_bound)
  with c have "\<bar>rnd (c / 2)\<bar> < 2 ^ 1024" by simp
  then show ?thesis by (simp add: round64_def)
qed

lemma fin_plus_not_NaN: "b \<noteq> NaN \<Longrightarrow> Fin a + b \<noteq> NaN"
  by (cases b) simp_all

lemma plus_fin_not_NaN: "v \<noteq> NaN \<Longrightarrow> v + Fin c \<noteq> NaN"
  by (cases v) simp_all

lemma uminus_not_NaN: "v \<noteq> NaN \<Longrightarrow> - v \<noteq> NaN"
  by (cases v) simp_all

lemma times_fin_not_NaN: "v \<noteq> NaN \<Longrightarrow> c \<noteq> 0 \<Longrightarrow> v * Fin c \<noteq> NaN"
  by (cases v) simp_all

lemma divide_fin_not_NaN: "v \<noteq> NaN \<Longrightarrow> v \<noteq> Fin 0 \<or> c \<noteq> 0 \<Longrightarrow> v / Fin c \<noteq> NaN"
  by (cases v) auto

lemma fin_divide_not_NaN: "v \<noteq> NaN \<Longrightarrow> v \<noteq> Fin 0 \<or> a \<noteq> 0 \<Longrightarrow> Fin a / v \<noteq> NaN"
  by (cases v) auto

lemma clamp_fin:
  assumes "lo \<le> hi" "v \<noteq> NaN"
  shows "\<exists>c. clamp v (Fin lo) (Fin hi) = Fin c \<and> lo \<le> c \<and> c \<le> hi"
  using assms by (cases v) (auto simp: clamp_def)

lemma lit_bounds:
  assumes "0 < c" "c \<le> 2 ^ 1000"
  shows "\<exists>q. lit c = Fin q \<and> 0 < q \<and> q \<le> c * (1 + 1 / 2 ^ 53)"
proof -
  have "\<bar>rnd c - c\<bar> \<le> \<bar>c\<bar> / 2 ^ 53" by (rule rnd_abs_err)
  moreover have "\<bar>c\<bar> / 2 ^ 53 = c * (1 / 2 ^ 53)" using assms by simp
  ultimately have "\<bar>rnd c - c\<bar> \<le> c * (1 / 2 ^ 53)" by (simp only:)
  then have "rnd c \<le> c + c * (1 / 2 ^ 53)" by linarith
  then have "rnd c \<le> c * (1 + 1 / 2 ^ 53)" by (simp only: distrib_left mult_1_right)
  moreover have "lit c = Fin (rnd c)" using assms by (intro lit_small) simp
  ultimately show ?thesis using assms by auto
qed

text \<open>The rebound angle of a hit on finite inputs is a number below one in magnitude,
  unless \<open>impact\<close> or \<open>spin\<close> is \<open>0/0\<close>.\<close>

lemma hit_result:
  assumes hit: "hit (resolvePaddleHit opts)"
    and opts: "opts =
      \<lparr>paddle = \<lparr>Paddle.x = Fin px, y = Fin py, vy = Fin pvy, w = Fin pw, h = Fin ph\<rparr>,
       ball = \<lparr>Ball.x = Fin bx, y = Fin by', vx = Fin bvx, vy = Fin bvy, r = Fin br\<rparr>,
       isLeft = lf, speedUp = Fin su, maxSpeed = Fin ms, dpr = Fin d\<rparr>"
    and py: "round64 py = Fin py" and ph: "round64 ph = Fin ph"
    and impact: "\<not> (ph = 0 \<and> by' = py)"
    and spin: "\<not> (d = 0 \<and> pvy = 0)"
  shows "\<exists>a. \<bar>a\<bar> < 1
     \<and> clamp ((Fin by' - (Fin py + Fin ph * lit 0.5)) / (Fin ph * lit 0.5) * lit 0.75
               + clamp ((Fin pvy / (Fin 1150 * Fin d)) * lit 0.55) (- lit 0.55) (lit 0.55))
          (- lit 0.95) (lit 0.95) = Fin a
     \<and> resolvePaddleHit opts =
     \<lparr>hit = True,
      vx = Math_cos (Fin a) * Math_min (Math_hypot (Fin bvx) (Fin bvy) * Fin su) (Fin ms * Fin d)
             * (if lf then Fin 1 else Fin (- 1)),
      vy = Math_sin (Fin a) * Math_min (Math_hypot (Fin bvx) (Fin bvy) * Fin su) (Fin ms * Fin d),
      x = (if lf then Fin px + Fin pw + Fin br else Fin px - Fin br)\<rparr>"
proof -
  let ?hh = "Fin ph * lit 0.5"
  let ?num = "Fin by' - (Fin py + ?hh)"
  let ?impact = "?num / ?hh"
  let ?spinarg = "(Fin pvy / (Fin 1150 * Fin d)) * lit 0.55"
  obtain q55 where q55: "lit 0.55 = Fin q55" "0 < q55" "q55 \<le> 0.55 * (1 + 1 / 2 ^ 53)"
    using lit_bounds[of "0.55"] by auto
  obtain q95 where q95: "lit 0.95 = Fin q95" "0 < q95" "q95 \<le> 0.95 * (1 + 1 / 2 ^ 53)"
    using lit_bounds[of "0.95"] by auto
  have hh: "?hh = Fin (rnd (ph / 2))"
    using round64_half[OF ph] by simp
  have num: "?num \<noteq> NaN"
    by (simp add: minus_number_def hh fin_plus_not_NaN uminus_not_NaN)
  have "?num \<noteq> Fin 0 \<or> rnd (ph / 2) \<noteq> 0"
  proof (cases "ph = 0")
    case False
    then show ?thesis by simp
  next
    case True
    with impact have "by' \<noteq> py" by simp
    then have "round64 (by' - py) \<noteq> Fin 0" by simp
    with True py show ?thesis by (simp add: minus_number_def hh)
  qed
  with num have "?impact \<noteq> NaN"
    unfolding hh by (rule divide_fin_not_NaN)
  then have i: "?impact * lit 0.75 \<noteq> NaN"
    by (simp add: times_fin_not_NaN)
  have "Fin pvy / (Fin 1150 * Fin d) \<noteq> NaN"
    using spin by (intro fin_divide_not_NaN) auto
  then have "?spinarg \<noteq> NaN"
    unfolding q55 using q55(2) by (intro times_fin_not_NaN) simp_all
  then obtain sp where sp: "clamp ?spinarg (- lit 0.55) (lit 0.55) = Fin sp"
    using clamp_fin[of "- q55" q55 ?spinarg] q55 by auto
  from i have "?impact * lit 0.75 + Fin sp \<noteq> NaN"
    by (rule plus_fin_not_NaN)
  then obtain a where a: "clamp (?impact * lit 0.75 + Fin sp) (- lit 0.95) (lit 0.95) = Fin a"
    and bnd: "- q95 \<le> a" "a \<le> q95"
    using clamp_fin[of "- q95" q95 "?impact * lit 0.75 + Fin sp"] q95 by auto
  have "q95 < 1" using q95(3) by simp
  with bnd have a1: "\<bar>a\<bar> < 1" by simp
  from hit have res: "resolvePaddleHit opts =
     \<lparr>hit = True,
      vx = Math_cos (Fin a) * Math_min (Math_hypot (Fin bvx) (Fin bvy) * Fin su) (Fin ms * Fin d)
             * (if lf then Fin 1 else Fin (- 1)),
      vy = Math_sin (Fin a) * Math_min (Math_hypot (Fin bvx) (Fin bvy) * Fin su) (Fin ms * Fin d),
      x = (if lf then Fin px + Fin pw + Fin br else Fin px - Fin br)\<rparr>"
    unfolding resolvePaddleHit_def opts Let_def
    apply (simp only: Opts.simps Paddle.simps Ball.simps sp a HitResult.simps split: if_splits)
    apply simp
    done
  from a have "clamp ((Fin by' - (Fin py + Fin ph * lit 0.5)) / (Fin ph * lit 0.5) * lit 0.75
               + clamp ((Fin pvy / (Fin 1150 * Fin d)) * lit 0.55) (- lit 0.55) (lit 0.55))
          (- lit 0.95) (lit 0.95) = Fin a"
    by (simp only: sp)
  with a1 res show ?thesis by blast
qed

subsection \<open>The largest finite value\<close>

lemma pow2_mono: "a \<le> b \<Longrightarrow> pow2 a \<le> pow2 b"
  unfolding pow2_def by (rule powr_mono) simp_all

lemma rnd_upper: "0 < z \<Longrightarrow> rnd z \<le> z + z / 2 ^ 53"
proof -
  assume z: "0 < z"
  have "\<bar>rnd z - z\<bar> \<le> \<bar>z\<bar> / 2 ^ 53" by (rule rnd_abs_err)
  also have "\<bar>z\<bar> = z" using z by simp
  finally show ?thesis by linarith
qed

lemma rnd_lower: "z < 0 \<Longrightarrow> z + z / 2 ^ 53 \<le> rnd z"
proof -
  assume z: "z < 0"
  have "\<bar>rnd z - z\<bar> \<le> \<bar>z\<bar> / 2 ^ 53" by (rule rnd_abs_err)
  also have "\<bar>z\<bar> = - z" using z by simp
  finally show ?thesis by (simp add: abs_le_iff)
qed

lemma double_max:
  assumes "round64 c = Fin c"
  shows "\<bar>c\<bar> \<le> 2 ^ 1024 - 2 ^ 971"
proof (cases "c = 0")
  case True
  then show ?thesis by simp
next
  case False
  from assms have r: "rnd c = c" and b: "\<bar>c\<bar> < 2 ^ 1024"
    by (auto simp: round64_def split: if_splits)
  define e where "e = expo c"
  have eb: "pow2 e \<le> \<bar>c\<bar>" "\<bar>c\<bar> < pow2 (e + 1)"
    using expo_bounds[OF False] by (simp_all add: e_def)
  have p1024: "pow2 1024 = 2 ^ 1024" using pow2_nat[of 1024] by simp
  have p971: "pow2 971 = 2 ^ 971" using pow2_nat[of 971] by simp
  have p53: "pow2 53 = 2 ^ 53" using pow2_nat[of 53] by simp
  have e: "e \<le> 1023"
  proof (rule ccontr)
    assume "\<not> e \<le> 1023"
    then have "pow2 1024 \<le> pow2 e" by (intro pow2_mono) simp
    with eb(1) b p1024 show False by linarith
  qed
  define k where "k = round_even (c / pow2 (e - 52))"
  define u where "u = pow2 (e - 52)"
  have u: "0 < u" by (simp add: u_def)
  have "rnd c = of_int k * u" using False by (simp add: rnd_def k_def e_def u_def)
  with r have ck: "c = of_int k * u" by simp
  have "e + 1 = 53 + (e - 52)" by simp
  then have "pow2 (e + 1) = pow2 (53 + (e - 52))" by (simp only:)
  then have "pow2 (e + 1) = pow2 53 * u" by (simp only: pow2_add u_def)
  with eb(2) p53 have "\<bar>c\<bar> < 2 ^ 53 * u" by simp
  then have "\<bar>real_of_int k\<bar> * u < 2 ^ 53 * u" using u by (simp add: ck abs_mult)
  with u have "\<bar>real_of_int k\<bar> < 2 ^ 53" by simp
  then have "real_of_int \<bar>k\<bar> < real_of_int (2 ^ 53)" by simp
  then have "\<bar>k\<bar> < 2 ^ 53" by (simp only: of_int_less_iff)
  then have "\<bar>k\<bar> \<le> 2 ^ 53 - 1" by simp
  then have "real_of_int \<bar>k\<bar> \<le> real_of_int (2 ^ 53 - 1)" by (simp only: of_int_le_iff)
  then have k: "\<bar>real_of_int k\<bar> \<le> 2 ^ 53 - 1" by simp
  have "u \<le> pow2 971" using e unfolding u_def by (intro pow2_mono) simp
  then have u2: "u \<le> 2 ^ 971" by (simp add: p971)
  have "\<bar>c\<bar> = \<bar>real_of_int k\<bar> * u" using u by (simp add: ck abs_mult)
  also have "\<dots> \<le> (2 ^ 53 - 1) * 2 ^ 971"
    using k u2 u by (intro mult_mono) simp_all
  also have "\<dots> = 2 ^ 1024 - 2 ^ 971" by simp
  finally show ?thesis .
qed

lemma overflow_lower:
  assumes "round64 z = PosInf"
  shows "2 ^ 1024 - 2 ^ 971 < z"
proof -
  from assms have z: "0 < z" and b: "2 ^ 1024 \<le> \<bar>rnd z\<bar>"
    by (auto simp: round64_def split: if_splits)
  have "\<bar>rnd z\<bar> = rnd z" using z by simp
  with b rnd_upper[OF z] have "2 ^ 1024 \<le> z + z / 2 ^ 53" by linarith
  then show ?thesis by simp
qed

lemma overflow_upper:
  assumes "round64 z = NegInf"
  shows "z < - (2 ^ 1024 - 2 ^ 971)"
proof -
  from assms have z0: "z \<le> 0" and b: "2 ^ 1024 \<le> \<bar>rnd z\<bar>"
    by (auto simp: round64_def split: if_splits)
  from b have "z \<noteq> 0" by auto
  with z0 have z: "z < 0" by simp
  have "\<bar>rnd z\<bar> = - rnd z" using z by simp
  with b rnd_lower[OF z] have "2 ^ 1024 \<le> - z - z / 2 ^ 53" by linarith
  then show ?thesis by simp
qed

lemma no_double_overflow:
  assumes "round64 c = Fin c"
  shows "\<not> (round64 (c - r0) = PosInf \<and> round64 (c + r0) = PosInf)"
    and "\<not> (round64 (c - r0) = NegInf \<and> round64 (c + r0) = NegInf)"
proof -
  have m: "\<bar>c\<bar> \<le> 2 ^ 1024 - 2 ^ 971" using assms by (rule double_max)
  show "\<not> (round64 (c - r0) = PosInf \<and> round64 (c + r0) = PosInf)"
  proof
    assume "round64 (c - r0) = PosInf \<and> round64 (c + r0) = PosInf"
    then have p: "round64 (c - r0) = PosInf" "round64 (c + r0) = PosInf" by simp_all
    from overflow_lower[OF p(1)] overflow_lower[OF p(2)] m show False by linarith
  qed
  show "\<not> (round64 (c - r0) = NegInf \<and> round64 (c + r0) = NegInf)"
  proof
    assume "round64 (c - r0) = NegInf \<and> round64 (c + r0) = NegInf"
    then have p: "round64 (c - r0) = NegInf" "round64 (c + r0) = NegInf" by simp_all
    from overflow_upper[OF p(1)] overflow_upper[OF p(2)] m show False by linarith
  qed
qed

lemma interval_meet:
  assumes "a1 \<noteq> NaN" "b0 \<noteq> NaN" "b1 \<noteq> NaN"
    and "\<not> b1 < Fin a0" "\<not> a1 < b0"
    and "\<not> (b0 = PosInf \<and> b1 = PosInf)" "\<not> (b0 = NegInf \<and> b1 = NegInf)"
  shows "\<exists>u. between (Fin a0) a1 (Fin u) \<and> between b0 b1 (Fin u)"
proof -
  define la where "la = (case a1 of Fin c \<Rightarrow> min a0 c | _ \<Rightarrow> a0)"
  define lb where "lb = (case b0 of
      Fin c0 \<Rightarrow> (case b1 of Fin c1 \<Rightarrow> min c0 c1 | _ \<Rightarrow> c0)
    | PosInf \<Rightarrow> (case b1 of Fin c1 \<Rightarrow> c1 | _ \<Rightarrow> la)
    | _ \<Rightarrow> la)"
  from assms show ?thesis
    by (intro exI[of _ "max la lb"])
      (cases a1; cases b0; cases b1; simp add: between_def la_def lb_def; linarith)
qed

lemma finite_optsE:
  assumes "finite_opts opts"
  obtains px py pvy pw ph bx by' bvx bvy br lf su ms d where
    "opts = \<lparr>paddle = \<lparr>Paddle.x = Fin px, y = Fin py, vy = Fin pvy, w = Fin pw, h = Fin ph\<rparr>,
             ball = \<lparr>Ball.x = Fin bx, y = Fin by', vx = Fin bvx, vy = Fin bvy, r = Fin br\<rparr>,
             isLeft = lf, speedUp = Fin su, maxSpeed = Fin ms, dpr = Fin d\<rparr>"
    "round64 py = Fin py" "round64 ph = Fin ph"
proof -
  obtain p b lf su0 ms0 d0 where
    o: "opts = \<lparr>paddle = p, ball = b, isLeft = lf, speedUp = su0, maxSpeed = ms0, dpr = d0\<rparr>"
    by (cases opts)
  obtain a1 a2 a3 a4 a5 where
    p: "p = \<lparr>Paddle.x = a1, y = a2, vy = a3, w = a4, h = a5\<rparr>" by (cases p)
  obtain b1 b2 b3 b4 b5 where
    b: "b = \<lparr>Ball.x = b1, y = b2, vx = b3, vy = b4, r = b5\<rparr>" by (cases b)
  from assms have f: "is_fin a1" "is_fin a2" "is_fin a3" "is_fin a4" "is_fin a5"
    "is_fin b1" "is_fin b2" "is_fin b3" "is_fin b4" "is_fin b5"
    "is_fin su0" "is_fin ms0" "is_fin d0"
    unfolding o p b finite_opts_def finite_paddle_def finite_ball_def by simp_all
  from f(1) obtain px where "a1 = Fin px" by (rule is_finE)
  moreover from f(2) obtain py where "a2 = Fin py" "round64 py = Fin py" by (rule is_finE)
  moreover from f(3) obtain pvy where "a3 = Fin pvy" by (rule is_finE)
  moreover from f(4) obtain pw where "a4 = Fin pw" by (rule is_finE)
  moreover from f(5) obtain ph where "a5 = Fin ph" "round64 ph = Fin ph" by (rule is_finE)
  moreover from f(6) obtain bx where "b1 = Fin bx" by (rule is_finE)
  moreover from f(7) obtain by' where "b2 = Fin by'" by (rule is_finE)
  moreover from f(8) obtain bvx where "b3 = Fin bvx" by (rule is_finE)
  moreover from f(9) obtain bvy where "b4 = Fin bvy" by (rule is_finE)
  moreover from f(10) obtain br where "b5 = Fin br" by (rule is_finE)
  moreover from f(11) obtain su where "su0 = Fin su" by (rule is_finE)
  moreover from f(12) obtain ms where "ms0 = Fin ms" by (rule is_finE)
  moreover from f(13) obtain d where "d0 = Fin d" by (rule is_finE)
  ultimately show ?thesis using o p b
    by (intro that[of px py pvy pw ph bx by' bvx bvy br lf su ms d]) simp_all
qed

subsection \<open>No overlap\<close>

text \<open>
  Claim C4. When the paddle's rectangle and the ball's bounding square have no point in
  common, \<open>resolvePaddleHit\<close> returns \<open>hit = false\<close> together with the ball's own
  \<open>vx\<close>, \<open>vy\<close> and \<open>x\<close>.
\<close>

theorem no_overlap_passes_through:
  assumes "finite_paddle (paddle opts)" "finite_ball (Opts.ball opts)"
    and "paddle_rect (paddle opts) \<inter> ball_box (Opts.ball opts) = {}"
  shows "resolvePaddleHit opts =
           \<lparr>hit = False, vx = Ball.vx (Opts.ball opts), vy = Ball.vy (Opts.ball opts),
            x = Ball.x (Opts.ball opts)\<rparr>"
proof (rule ccontr)
  assume neq: "resolvePaddleHit opts \<noteq>
           \<lparr>hit = False, vx = Ball.vx (Opts.ball opts), vy = Ball.vy (Opts.ball opts),
            x = Ball.x (Opts.ball opts)\<rparr>"
  from assms(1) have fp: "is_fin (Paddle.x (paddle opts))" "is_fin (Paddle.y (paddle opts))"
    "is_fin (Paddle.w (paddle opts))" "is_fin (Paddle.h (paddle opts))"
    by (simp_all add: finite_paddle_def)
  from assms(2) have fb: "is_fin (Ball.x (Opts.ball opts))" "is_fin (Ball.y (Opts.ball opts))"
    "is_fin (Ball.r (Opts.ball opts))"
    by (simp_all add: finite_ball_def)
  from fp(1) obtain px where px: "Paddle.x (paddle opts) = Fin px" by (rule is_finE)
  from fp(2) obtain py where py: "Paddle.y (paddle opts) = Fin py" by (rule is_finE)
  from fp(3) obtain pw where pw: "Paddle.w (paddle opts) = Fin pw" by (rule is_finE)
  from fp(4) obtain ph where ph: "Paddle.h (paddle opts) = Fin ph" by (rule is_finE)
  from fb(1) obtain bx where bx: "Ball.x (Opts.ball opts) = Fin bx" "round64 bx = Fin bx"
    by (rule is_finE)
  from fb(2) obtain by' where by': "Ball.y (Opts.ball opts) = Fin by'" "round64 by' = Fin by'"
    by (rule is_finE)
  from fb(3) obtain br where br: "Ball.r (Opts.ball opts) = Fin br" by (rule is_finE)
  note f = px py pw ph bx(1) by'(1) br
  from neq have ov:
    "\<not> round64 (bx + br) < Fin px" "\<not> round64 (px + pw) < round64 (bx - br)"
    "\<not> round64 (by' + br) < Fin py" "\<not> round64 (py + ph) < round64 (by' - br)"
    by (auto simp: resolvePaddleHit_def Let_def f minus_number_def split: if_splits)
  have "\<exists>u. between (Fin px) (round64 (px + pw)) (Fin u)
            \<and> between (round64 (bx - br)) (round64 (bx + br)) (Fin u)"
    using ov(1,2) no_double_overflow[OF bx(2)] by (intro interval_meet) simp_all
  then obtain u where
    u: "between (Fin px) (round64 (px + pw)) (Fin u)"
       "between (round64 (bx - br)) (round64 (bx + br)) (Fin u)" by blast
  have "\<exists>v. between (Fin py) (round64 (py + ph)) (Fin v)
            \<and> between (round64 (by' - br)) (round64 (by' + br)) (Fin v)"
    using ov(3,4) no_double_overflow[OF by'(2)] by (intro interval_meet) simp_all
  then obtain v where
    v: "between (Fin py) (round64 (py + ph)) (Fin v)"
       "between (round64 (by' - br)) (round64 (by' + br)) (Fin v)" by blast
  from u v have "(u, v) \<in> paddle_rect (paddle opts) \<inter> ball_box (Opts.ball opts)"
    by (simp add: paddle_rect_def ball_box_def f minus_number_def)
  with assms(3) show False by simp
qed

theorem no_overlap_passes_through_witness:
  "finite_paddle (paddle test_no_hit) \<and> finite_ball (Opts.ball test_no_hit)
   \<and> paddle_rect (paddle test_no_hit) \<inter> ball_box (Opts.ball test_no_hit) = {}
   \<and> resolvePaddleHit test_no_hit = \<lparr>hit = False, vx = Fin (- 100), vy = Fin 0, x = Fin 200\<rparr>"
proof -
  have fp: "finite_paddle (paddle test_no_hit)"
    by (simp add: finite_paddle_def test_no_hit_def)
  have fb: "finite_ball (Opts.ball test_no_hit)"
    by (simp add: finite_ball_def test_no_hit_def)
  have dj: "paddle_rect (paddle test_no_hit) \<inter> ball_box (Opts.ball test_no_hit) = {}"
    by (auto simp: paddle_rect_def ball_box_def between_def test_no_hit_def minus_number_def)
  from no_overlap_passes_through[OF fp fb dj] fp fb dj show ?thesis
    by (simp add: test_no_hit_def)
qed

subsection \<open>The resolved position\<close>

lemma test_left_hit_hits: "hit (resolvePaddleHit test_left_hit)"
  by (simp add: resolvePaddleHit_def test_left_hit_def minus_number_def Let_def)

lemma test_right_hit_hits: "hit (resolvePaddleHit test_right_hit)"
  by (simp add: resolvePaddleHit_def test_right_hit_def minus_number_def Let_def)

text \<open>
  Claim C5. On a hit, the resolved \<open>x\<close> is \<open>paddle.x + paddle.w + ball.r\<close> for the left
  paddle and \<open>paddle.x - ball.r\<close> for the right one; a left paddle at \<open>x = 20\<close> of width
  \<open>10\<close> and a ball of radius \<open>6\<close> give \<open>36\<close>.
\<close>

theorem resolved_x:
  "hit (resolvePaddleHit opts) \<Longrightarrow>
   HitResult.x (resolvePaddleHit opts) =
     (if isLeft opts
      then Paddle.x (paddle opts) + Paddle.w (paddle opts) + Ball.r (Opts.ball opts)
      else Paddle.x (paddle opts) - Ball.r (Opts.ball opts))"
  by (simp add: resolvePaddleHit_def Let_def split: if_splits)

theorem resolved_x_witness:
  "hit (resolvePaddleHit test_left_hit)
   \<and> HitResult.x (resolvePaddleHit test_left_hit) = Fin 36
   \<and> hit (resolvePaddleHit test_right_hit)
   \<and> HitResult.x (resolvePaddleHit test_right_hit) = Fin 194"
  using resolved_x[OF test_left_hit_hits] resolved_x[OF test_right_hit_hits]
    test_left_hit_hits test_right_hit_hits
  by (simp add: test_left_hit_def test_right_hit_def minus_number_def)

subsection \<open>The outgoing velocity\<close>

lemma cos_rebound_pos:
  assumes "\<bar>a\<bar> < 1"
  shows "Fin 0 < Math_cos (Fin a)"
proof -
  have "1 \<le> pi / 2" using pi_ge_two by simp
  with assms have "- (pi / 2) < a" "a < pi / 2" by linarith+
  then have "0 < cos a" by (rule cos_gt_zero_pi)
  then show ?thesis by simp
qed

lemma pos_times_pos: "Fin 0 < a \<Longrightarrow> Fin 0 < b \<Longrightarrow> Fin 0 < a * b"
  by (cases a; cases b) simp_all

lemma pos_times_one: "Fin 0 < a \<Longrightarrow> Fin 0 < a * Fin 1"
  by (cases a) simp_all

lemma pos_times_minus_one: "Fin 0 < a \<Longrightarrow> a * Fin (- 1) < Fin 0"
  by (cases a) simp_all

lemma Math_min_pos: "Fin 0 < Math_min a b \<Longrightarrow> Fin 0 < b"
  by (cases a; cases b) (auto split: if_splits)


lemma lit_eval [simp]: "lit (11 / 20) = Fin (rnd (11 / 20))" "lit (19 / 20) = Fin (rnd (19 / 20))"
  by (simp_all add: lit_small)

lemma flat_paddle_hit_result:
  "resolvePaddleHit flat_paddle_hit = \<lparr>hit = True, vx = NaN, vy = NaN, x = Fin 36\<rparr>"
  by (simp add: resolvePaddleHit_def flat_paddle_hit_def minus_number_def Let_def clamp_def)

lemma still_ball_hit_result:
  "resolvePaddleHit still_ball_hit = \<lparr>hit = True, vx = Fin 0, vy = Fin 0, x = Fin 36\<rparr>"
  by (simp add: resolvePaddleHit_def still_ball_hit_def test_left_hit_def minus_number_def
      Let_def clamp_def)

lemma test_left_hit_result:
  "resolvePaddleHit test_left_hit = \<lparr>hit = True, vx = Fin 400, vy = Fin 0, x = Fin 36\<rparr>"
  by (simp add: resolvePaddleHit_def test_left_hit_def minus_number_def
      Let_def clamp_def)



subsection \<open>The outgoing speed\<close>

lemma rnd_abs_bounds:
  "\<bar>z\<bar> * (1 - 1 / 2 ^ 53) \<le> \<bar>rnd z\<bar>" "\<bar>rnd z\<bar> \<le> \<bar>z\<bar> * (1 + 1 / 2 ^ 53)"
proof -
  define t where "t = \<bar>z\<bar> * (1 / 2 ^ 53)"
  have "\<bar>rnd z - z\<bar> \<le> \<bar>z\<bar> / 2 ^ 53" by (rule rnd_abs_err)
  then have e: "\<bar>rnd z - z\<bar> \<le> t" by (simp add: t_def)
  have "\<bar>\<bar>rnd z\<bar> - \<bar>z\<bar>\<bar> \<le> \<bar>rnd z - z\<bar>" by (rule abs_triangle_ineq3)
  with e have b: "\<bar>z\<bar> - t \<le> \<bar>rnd z\<bar>" "\<bar>rnd z\<bar> \<le> \<bar>z\<bar> + t" by linarith+
  have "\<bar>z\<bar> * (1 - 1 / 2 ^ 53) = \<bar>z\<bar> - t" "\<bar>z\<bar> * (1 + 1 / 2 ^ 53) = \<bar>z\<bar> + t"
    unfolding t_def by (simp_all only: right_diff_distrib distrib_left mult_1_right)
  with b show "\<bar>z\<bar> * (1 - 1 / 2 ^ 53) \<le> \<bar>rnd z\<bar>" "\<bar>rnd z\<bar> \<le> \<bar>z\<bar> * (1 + 1 / 2 ^ 53)"
    by simp_all
qed

lemma round64_fin:
  assumes "\<bar>z\<bar> \<le> 2 ^ 1023"
  shows "round64 z = Fin (rnd z)"
proof -
  have "\<bar>rnd z\<bar> \<le> \<bar>z\<bar> * (1 + 1 / 2 ^ 53)" by (rule rnd_abs_bounds)
  also have "\<dots> \<le> 2 ^ 1023 * (1 + 1 / 2 ^ 53)" using assms by (intro mult_right_mono) simp_all
  also have "\<dots> < 2 ^ 1024" by simp
  finally show ?thesis by (simp add: round64_def)
qed

text \<open>One more rounding widens a relative enclosure by one factor.\<close>

lemma scale_rnd:
  assumes "A * l \<le> \<bar>z\<bar>" "\<bar>z\<bar> \<le> A * u" "0 \<le> A"
  shows "A * (l * (1 - 1 / 2 ^ 53)) \<le> \<bar>rnd z\<bar>" "\<bar>rnd z\<bar> \<le> A * (u * (1 + 1 / 2 ^ 53))"
proof -
  have "A * l * (1 - 1 / 2 ^ 53) \<le> \<bar>z\<bar> * (1 - 1 / 2 ^ 53)"
    using assms(1) by (intro mult_right_mono) simp_all
  also have "\<dots> \<le> \<bar>rnd z\<bar>" by (rule rnd_abs_bounds)
  finally show "A * (l * (1 - 1 / 2 ^ 53)) \<le> \<bar>rnd z\<bar>" by (simp only: mult.assoc)
  have "\<bar>rnd z\<bar> \<le> \<bar>z\<bar> * (1 + 1 / 2 ^ 53)" by (rule rnd_abs_bounds)
  also have "\<dots> \<le> A * u * (1 + 1 / 2 ^ 53)"
    using assms(2) by (intro mult_right_mono) simp_all
  finally show "\<bar>rnd z\<bar> \<le> A * (u * (1 + 1 / 2 ^ 53))" by (simp only: mult.assoc)
qed

lemma rebound_magnitude:
  fixes a n dirv :: real
  assumes n: "0 \<le> n" and dirv: "\<bar>dirv\<bar> = 1"
  defines "X \<equiv> rnd (rnd (rnd (cos a) * n) * dirv)"
    and "Y \<equiv> rnd (rnd (sin a) * n)"
  shows "\<bar>sqrt (X\<^sup>2 + Y\<^sup>2) - n\<bar> \<le> n / 2 ^ 48"
proof -
  define lo :: real where "lo = 1 - 1 / 2 ^ 53"
  define hi :: real where "hi = 1 + 1 / 2 ^ 53"
  have lo: "0 \<le> lo" "lo \<le> 1" and hi: "1 \<le> hi" "0 \<le> hi" by (simp_all add: lo_def hi_def)
  define A where "A = \<bar>cos a\<bar> * n"
  define B where "B = \<bar>sin a\<bar> * n"
  have A: "0 \<le> A" and B: "0 \<le> B" using n by (simp_all add: A_def B_def)
  have c1: "\<bar>cos a\<bar> * lo \<le> \<bar>rnd (cos a)\<bar>" "\<bar>rnd (cos a)\<bar> \<le> \<bar>cos a\<bar> * hi"
    unfolding lo_def hi_def by (rule rnd_abs_bounds)+
  have c2: "A * lo \<le> \<bar>rnd (cos a) * n\<bar>" "\<bar>rnd (cos a) * n\<bar> \<le> A * hi"
    using mult_right_mono[OF c1(1) n] mult_right_mono[OF c1(2) n] n
    by (simp_all add: A_def abs_mult mult.commute mult.left_commute)
  have c3: "A * (lo * lo) \<le> \<bar>rnd (rnd (cos a) * n)\<bar>" "\<bar>rnd (rnd (cos a) * n)\<bar> \<le> A * (hi * hi)"
    using scale_rnd[OF c2 A] by (simp_all add: lo_def hi_def)
  have c4: "A * (lo * lo) \<le> \<bar>rnd (rnd (cos a) * n) * dirv\<bar>"
    "\<bar>rnd (rnd (cos a) * n) * dirv\<bar> \<le> A * (hi * hi)"
    using c3 dirv by (simp_all add: abs_mult)
  have x: "A * (lo * lo * lo) \<le> \<bar>X\<bar>" "\<bar>X\<bar> \<le> A * (hi * hi * hi)"
    using scale_rnd[OF c4 A] by (simp_all add: X_def lo_def hi_def)
  have s1: "\<bar>sin a\<bar> * lo \<le> \<bar>rnd (sin a)\<bar>" "\<bar>rnd (sin a)\<bar> \<le> \<bar>sin a\<bar> * hi"
    unfolding lo_def hi_def by (rule rnd_abs_bounds)+
  have s2: "B * lo \<le> \<bar>rnd (sin a) * n\<bar>" "\<bar>rnd (sin a) * n\<bar> \<le> B * hi"
    using mult_right_mono[OF s1(1) n] mult_right_mono[OF s1(2) n] n
    by (simp_all add: B_def abs_mult mult.commute mult.left_commute)
  have s3: "B * (lo * lo) \<le> \<bar>Y\<bar>" "\<bar>Y\<bar> \<le> B * (hi * hi)"
    using scale_rnd[OF s2 B] by (simp_all add: Y_def lo_def hi_def)
  have "B * (lo * lo * lo) \<le> B * (lo * lo)"
    using B lo by (intro mult_left_mono) (simp_all add: mult_left_le)
  with s3(1) have y1: "B * (lo * lo * lo) \<le> \<bar>Y\<bar>" by linarith
  have "B * (hi * hi) \<le> B * (hi * hi * hi)"
    using B hi by (intro mult_left_mono) simp_all
  with s3(2) have y2: "\<bar>Y\<bar> \<le> B * (hi * hi * hi)" by linarith
  define l3 where "l3 = lo * lo * lo"
  define h3 where "h3 = hi * hi * hi"
  have l3: "0 \<le> l3" and h3: "0 \<le> h3" using lo hi by (simp_all add: l3_def h3_def)
  have unit: "A\<^sup>2 + B\<^sup>2 = n\<^sup>2"
  proof -
    have "A\<^sup>2 + B\<^sup>2 = n\<^sup>2 * (cos a)\<^sup>2 + n\<^sup>2 * (sin a)\<^sup>2"
      by (simp add: A_def B_def power_mult_distrib mult.commute)
    also have "\<dots> = n\<^sup>2 * ((cos a)\<^sup>2 + (sin a)\<^sup>2)"
      by (simp only: distrib_left)
    finally show ?thesis by simp
  qed
  have "(A * l3)\<^sup>2 \<le> \<bar>X\<bar>\<^sup>2" using x(1) A l3 unfolding l3_def[symmetric]
    by (intro power_mono) simp_all
  moreover have "(B * l3)\<^sup>2 \<le> \<bar>Y\<bar>\<^sup>2" using y1 B l3 unfolding l3_def[symmetric]
    by (intro power_mono) simp_all
  ultimately have "(A * l3)\<^sup>2 + (B * l3)\<^sup>2 \<le> X\<^sup>2 + Y\<^sup>2" by simp
  moreover have "(A * l3)\<^sup>2 + (B * l3)\<^sup>2 = (n * l3)\<^sup>2"
    using unit by (simp add: power_mult_distrib distrib_right[symmetric])
  ultimately have "(n * l3)\<^sup>2 \<le> X\<^sup>2 + Y\<^sup>2" by simp
  then have "sqrt ((n * l3)\<^sup>2) \<le> sqrt (X\<^sup>2 + Y\<^sup>2)" by (rule real_sqrt_le_mono)
  then have low: "n * l3 \<le> sqrt (X\<^sup>2 + Y\<^sup>2)" using n l3 by simp
  have "\<bar>X\<bar>\<^sup>2 \<le> (A * h3)\<^sup>2" using x(2) unfolding h3_def[symmetric]
    by (intro power_mono) simp_all
  moreover have "\<bar>Y\<bar>\<^sup>2 \<le> (B * h3)\<^sup>2" using y2 unfolding h3_def[symmetric]
    by (intro power_mono) simp_all
  ultimately have "X\<^sup>2 + Y\<^sup>2 \<le> (A * h3)\<^sup>2 + (B * h3)\<^sup>2" by simp
  moreover have "(A * h3)\<^sup>2 + (B * h3)\<^sup>2 = (n * h3)\<^sup>2"
    using unit by (simp add: power_mult_distrib distrib_right[symmetric])
  ultimately have "X\<^sup>2 + Y\<^sup>2 \<le> (n * h3)\<^sup>2" by simp
  then have "sqrt (X\<^sup>2 + Y\<^sup>2) \<le> sqrt ((n * h3)\<^sup>2)" by (rule real_sqrt_le_mono)
  then have high: "sqrt (X\<^sup>2 + Y\<^sup>2) \<le> n * h3" using n h3 by simp
  have "1 - 1 / 2 ^ 48 \<le> l3" "h3 \<le> 1 + 1 / 2 ^ 48"
    by (simp_all add: l3_def h3_def lo_def hi_def)
  then have "n * (1 - 1 / 2 ^ 48) \<le> n * l3" "n * h3 \<le> n * (1 + 1 / 2 ^ 48)"
    using n by (intro mult_left_mono; simp)+
  with low high have "n * (1 - 1 / 2 ^ 48) \<le> sqrt (X\<^sup>2 + Y\<^sup>2)"
    "sqrt (X\<^sup>2 + Y\<^sup>2) \<le> n * (1 + 1 / 2 ^ 48)" by linarith+
  moreover have "n * (1 - 1 / 2 ^ 48) = n - n / 2 ^ 48" "n * (1 + 1 / 2 ^ 48) = n + n / 2 ^ 48"
    by (simp_all add: algebra_simps)
  ultimately have "n - n / 2 ^ 48 \<le> sqrt (X\<^sup>2 + Y\<^sup>2)"
    "sqrt (X\<^sup>2 + Y\<^sup>2) \<le> n + n / 2 ^ 48" by (simp_all only:)
  then show ?thesis by linarith
qed

lemma rebound_speed:
  assumes hit: "hit (resolvePaddleHit opts)"
    and opts: "opts =
      \<lparr>paddle = \<lparr>Paddle.x = Fin px, y = Fin py, vy = Fin pvy, w = Fin pw, h = Fin ph\<rparr>,
       ball = \<lparr>Ball.x = Fin bx, y = Fin by', vx = Fin bvx, vy = Fin bvy, r = Fin br\<rparr>,
       isLeft = lf, speedUp = Fin su, maxSpeed = Fin ms, dpr = Fin d\<rparr>"
    and py: "round64 py = Fin py" and ph: "round64 ph = Fin ph"
    and impact: "\<not> (ph = 0 \<and> by' = py)"
    and spin: "\<not> (d = 0 \<and> pvy = 0)"
    and n: "Math_min (Math_hypot (Fin bvx) (Fin bvy) * Fin su) (Fin ms * Fin d) = Fin n"
      "0 \<le> n" "n \<le> 2 ^ 1000"
  shows "\<exists>ox oy. HitResult.vx (resolvePaddleHit opts) = Fin ox
       \<and> HitResult.vy (resolvePaddleHit opts) = Fin oy
       \<and> \<bar>sqrt (ox\<^sup>2 + oy\<^sup>2) - n\<bar> \<le> n / 2 ^ 48"
proof -
  from hit_result[OF hit opts py ph impact spin] obtain a where
    res: "resolvePaddleHit opts =
     \<lparr>hit = True,
      vx = Math_cos (Fin a) * Math_min (Math_hypot (Fin bvx) (Fin bvy) * Fin su) (Fin ms * Fin d)
             * (if lf then Fin 1 else Fin (- 1)),
      vy = Math_sin (Fin a) * Math_min (Math_hypot (Fin bvx) (Fin bvy) * Fin su) (Fin ms * Fin d),
      x = (if lf then Fin px + Fin pw + Fin br else Fin px - Fin br)\<rparr>"
    by blast
  have v: "HitResult.vx (resolvePaddleHit opts) =
          Math_cos (Fin a) * Fin n * (if lf then Fin 1 else Fin (- 1))"
       "HitResult.vy (resolvePaddleHit opts) = Math_sin (Fin a) * Fin n"
    by (simp_all only: res HitResult.select_convs n(1))
  define dirv :: real where "dirv = (if lf then 1 else - 1)"
  have dirv: "\<bar>dirv\<bar> = 1" by (simp add: dirv_def)
  have c: "\<bar>rnd (cos a)\<bar> \<le> 2" "\<bar>rnd (sin a)\<bar> \<le> 2"
    using rnd_bound[of "cos a"] rnd_bound[of "sin a"] abs_cos_le_one[of a] abs_sin_le_one[of a]
    by linarith+
  have big: "(2::real) * 2 ^ 1000 \<le> 2 ^ 1023" "(4::real) * 2 ^ 1000 \<le> 2 ^ 1023" by simp_all
  have cn: "\<bar>rnd (cos a) * n\<bar> \<le> 2 * 2 ^ 1000"
    unfolding abs_mult using c(1) n(2,3) by (intro mult_mono) simp_all
  have sn: "\<bar>rnd (sin a) * n\<bar> \<le> 2 * 2 ^ 1000"
    unfolding abs_mult using c(2) n(2,3) by (intro mult_mono) simp_all
  have cn2: "\<bar>rnd (rnd (cos a) * n) * dirv\<bar> \<le> 4 * 2 ^ 1000"
    using rnd_bound[of "rnd (cos a) * n"] cn dirv by (simp add: abs_mult)
  have mc: "Math_cos (Fin a) = Fin (rnd (cos a))" "Math_sin (Fin a) = Fin (rnd (sin a))"
  proof -
    have "(1::real) \<le> 2 ^ 1000" by simp
    with abs_cos_le_one[of a] abs_sin_le_one[of a]
    have "\<bar>cos a\<bar> \<le> 2 ^ 1000" "\<bar>sin a\<bar> \<le> 2 ^ 1000" by linarith+
    then show "Math_cos (Fin a) = Fin (rnd (cos a))" "Math_sin (Fin a) = Fin (rnd (sin a))"
      by (simp_all add: round64_small)
  qed
  have p1: "Fin (rnd (cos a)) * Fin n = Fin (rnd (rnd (cos a) * n))"
  proof -
    have "round64 (rnd (cos a) * n) = Fin (rnd (rnd (cos a) * n))"
      using cn big by (intro round64_fin) linarith
    then show ?thesis by simp
  qed
  have p2: "Fin (rnd (rnd (cos a) * n)) * (if lf then Fin 1 else Fin (- 1))
              = Fin (rnd (rnd (rnd (cos a) * n) * dirv))"
  proof -
    have "round64 (rnd (rnd (cos a) * n) * dirv) = Fin (rnd (rnd (rnd (cos a) * n) * dirv))"
      using cn2 big by (intro round64_fin) linarith
    then show ?thesis by (cases lf) (simp_all add: dirv_def)
  qed
  have p3: "Fin (rnd (sin a)) * Fin n = Fin (rnd (rnd (sin a) * n))"
  proof -
    have "round64 (rnd (sin a) * n) = Fin (rnd (rnd (sin a) * n))"
      using sn big by (intro round64_fin) linarith
    then show ?thesis by simp
  qed
  have vx: "HitResult.vx (resolvePaddleHit opts) = Fin (rnd (rnd (rnd (cos a) * n) * dirv))"
    and vy: "HitResult.vy (resolvePaddleHit opts) = Fin (rnd (rnd (sin a) * n))"
    unfolding v mc p1 p2 p3 by (rule refl)+
  from rebound_magnitude[OF n(2) dirv, of a] vx vy show ?thesis by blast
qed

text \<open>
  Claim C2, amended. On a hit with finite inputs that is not on a paddle of height zero
  with the ball level with it, when \<open>oldSpeed * speedUp\<close> and \<open>maxSpeed * dpr\<close> are
  finite and their minimum lies between \<open>1\<close> and \<open>2^1000\<close>, the returned \<open>vx\<close> and
  \<open>vy\<close> are finite and their magnitude is that minimum within a relative tolerance of
  \<open>2^-48\<close>; hence it exceeds \<open>maxSpeed * dpr\<close> by at most that tolerance, and is
  within that tolerance of \<open>oldSpeed * speedUp\<close> when this is below the cap.
\<close>

theorem hit_speed:
  assumes "finite_opts opts" and "hit (resolvePaddleHit opts)"
    and "\<not> (Paddle.h (paddle opts) = Fin 0 \<and> Ball.y (Opts.ball opts) = Paddle.y (paddle opts))"
    and "Math_hypot (Ball.vx (Opts.ball opts)) (Ball.vy (Opts.ball opts)) * Opts.speedUp opts
           = Fin old"
    and "maxSpeed opts * dpr opts = Fin cap"
    and "1 \<le> min old cap" and "min old cap \<le> 2 ^ 1000"
  shows "\<exists>ox oy. HitResult.vx (resolvePaddleHit opts) = Fin ox
       \<and> HitResult.vy (resolvePaddleHit opts) = Fin oy
       \<and> \<bar>sqrt (ox\<^sup>2 + oy\<^sup>2) - min old cap\<bar> \<le> min old cap / 2 ^ 48
       \<and> sqrt (ox\<^sup>2 + oy\<^sup>2) \<le> cap + cap / 2 ^ 48
       \<and> (old < cap \<longrightarrow> \<bar>sqrt (ox\<^sup>2 + oy\<^sup>2) - old\<bar> \<le> old / 2 ^ 48)"
proof -
  from assms(1) obtain px py pvy pw ph bx by' bvx bvy br lf su ms d where
    opts: "opts =
      \<lparr>paddle = \<lparr>Paddle.x = Fin px, y = Fin py, vy = Fin pvy, w = Fin pw, h = Fin ph\<rparr>,
       ball = \<lparr>Ball.x = Fin bx, y = Fin by', vx = Fin bvx, vy = Fin bvy, r = Fin br\<rparr>,
       isLeft = lf, speedUp = Fin su, maxSpeed = Fin ms, dpr = Fin d\<rparr>"
    and py: "round64 py = Fin py" and ph: "round64 ph = Fin ph"
    by (rule finite_optsE)
  define n where "n = min old cap"
  from assms(4,5) have o: "Math_hypot (Fin bvx) (Fin bvy) * Fin su = Fin old"
    and c: "Fin ms * Fin d = Fin cap" by (simp_all add: opts)
  have n: "Math_min (Math_hypot (Fin bvx) (Fin bvy) * Fin su) (Fin ms * Fin d) = Fin n"
    unfolding o c by (simp add: n_def min_def)
  from assms(6) have cap: "1 \<le> cap" by simp
  from c have "round64 (ms * d) = Fin cap" by simp
  with cap have "ms * d \<noteq> 0" by auto
  then have spin: "\<not> (d = 0 \<and> pvy = 0)" by auto
  from assms(3) have impact: "\<not> (ph = 0 \<and> by' = py)" by (simp add: opts)
  from assms(6,7) have n1: "0 \<le> n" "n \<le> 2 ^ 1000" by (simp_all add: n_def)
  from rebound_speed[OF assms(2) opts py ph impact spin n n1] obtain ox oy where
    v: "HitResult.vx (resolvePaddleHit opts) = Fin ox"
       "HitResult.vy (resolvePaddleHit opts) = Fin oy"
    and m: "\<bar>sqrt (ox\<^sup>2 + oy\<^sup>2) - n\<bar> \<le> n / 2 ^ 48" by blast
  have "n \<le> cap" by (simp add: n_def)
  then have "n + n / 2 ^ 48 \<le> cap + cap / 2 ^ 48"
    by (intro add_mono divide_right_mono) simp_all
  with m have le: "sqrt (ox\<^sup>2 + oy\<^sup>2) \<le> cap + cap / 2 ^ 48" by linarith
  have "old < cap \<longrightarrow> \<bar>sqrt (ox\<^sup>2 + oy\<^sup>2) - old\<bar> \<le> old / 2 ^ 48"
  proof
    assume "old < cap"
    then have "n = old" by (simp add: n_def)
    with m show "\<bar>sqrt (ox\<^sup>2 + oy\<^sup>2) - old\<bar> \<le> old / 2 ^ 48" by (simp only:)
  qed
  with v m le show ?thesis unfolding n_def by blast
qed

theorem hit_speed_witness:
  "finite_opts test_left_hit \<and> hit (resolvePaddleHit test_left_hit)
   \<and> \<not> (Paddle.h (paddle test_left_hit) = Fin 0
          \<and> Ball.y (Opts.ball test_left_hit) = Paddle.y (paddle test_left_hit))
   \<and> Math_hypot (Ball.vx (Opts.ball test_left_hit)) (Ball.vy (Opts.ball test_left_hit))
        * Opts.speedUp test_left_hit = Fin 400
   \<and> maxSpeed test_left_hit * dpr test_left_hit = Fin 1780
   \<and> (1::real) \<le> min 400 1780 \<and> (min 400 1780 :: real) \<le> 2 ^ 1000
   \<and> (\<exists>ox oy. HitResult.vx (resolvePaddleHit test_left_hit) = Fin ox
       \<and> HitResult.vy (resolvePaddleHit test_left_hit) = Fin oy
       \<and> \<bar>sqrt (ox\<^sup>2 + oy\<^sup>2) - min 400 1780\<bar> \<le> min 400 1780 / 2 ^ 48
       \<and> sqrt (ox\<^sup>2 + oy\<^sup>2) \<le> 1780 + 1780 / 2 ^ 48
       \<and> ((400::real) < 1780 \<longrightarrow> \<bar>sqrt (ox\<^sup>2 + oy\<^sup>2) - 400\<bar> \<le> 400 / 2 ^ 48))"
proof -
  have f: "finite_opts test_left_hit"
    by (simp add: finite_opts_def finite_paddle_def finite_ball_def test_left_hit_def)
  have old: "Math_hypot (Ball.vx (Opts.ball test_left_hit)) (Ball.vy (Opts.ball test_left_hit))
        * Opts.speedUp test_left_hit = Fin 400"
    and cap: "maxSpeed test_left_hit * dpr test_left_hit = Fin 1780"
    by (simp_all add: test_left_hit_def)
  have i: "\<not> (Paddle.h (paddle test_left_hit) = Fin 0
          \<and> Ball.y (Opts.ball test_left_hit) = Paddle.y (paddle test_left_hit))"
    by (simp add: test_left_hit_def)
  have n: "(1::real) \<le> min 400 1780" "(min 400 1780 :: real) \<le> 2 ^ 1000" by simp_all
  from hit_speed[OF f test_left_hit_hits i old cap n] f test_left_hit_hits i old cap n
  show ?thesis by blast
qed

end
